theory Spec2Isabelle
  imports Complex_Main "HOL-Library.Char_ord" "HOL-Library.List_Lexorder" "HOL-Library.Multiset"
    "HOL-Library.Log_Nat"
begin

section \<open>The single-bin driver of CAT/BAT (\<^verbatim>\<open>CAT_pack/single_bin.py\<close>)\<close>

text \<open>
  The development embeds the classification part of \<^verbatim>\<open>run\<close> (lines 464 to 593 of
  \<^verbatim>\<open>single_bin.py\<close>) and the two option declarations of \<^verbatim>\<open>parse_arguments\<close> that
  configure it.  Python strings are \<^typ>\<open>string\<close>, bit-scores and support scores are exact
  rationals, dictionaries are maps, and a call into a module that is not part of
  \<^verbatim>\<open>single_bin.py\<close> yields a computation result: it returns a value, raises, or does
  not return.
\<close>

subsection \<open>Results of calls\<close>

datatype error =
    UnknownTaxonId string
  | NoCommonAncestor
  | ZeroDivisionError
  | IndexError
  | SystemExit nat

text \<open>\<open>None\<close> is a call that does not return, \<open>Some (Inl e)\<close> one that raises \<open>e\<close>.\<close>

type_synonym 'a comp = "(error + 'a) option"

abbreviation Returns :: "'a \<Rightarrow> 'a comp" where
  "Returns x \<equiv> Some (Inr x)"

abbreviation Raises :: "error \<Rightarrow> 'a comp" where
  "Raises e \<equiv> Some (Inl e)"

abbreviation Hangs :: "'a comp" where
  "Hangs \<equiv> None"

subsection \<open>Strings and formatting\<close>

abbreviation TAB :: char where
  "TAB \<equiv> CHR 0x09"

abbreviation NL :: char where
  "NL \<equiv> CHR 0x0A"

text \<open>Python's \<^verbatim>\<open>sep.join(xs)\<close>.\<close>

fun join :: "string \<Rightarrow> string list \<Rightarrow> string" where
  "join sep [] = []"
| "join sep [x] = x"
| "join sep (x # y # ys) = x @ sep @ join sep (y # ys)"

text \<open>
  A format string \<^verbatim>\<open>'{0}\t{1}\t...\n'.format(a, b, ...)\<close>: the cells separated by tabs,
  closed by a newline.
\<close>

definition tsv :: "string list \<Rightarrow> string" where
  "tsv cells = join [TAB] cells @ [NL]"

text \<open>Python's \<^verbatim>\<open>s.startswith(p)\<close>.\<close>

definition startswith :: "string \<Rightarrow> string \<Rightarrow> bool" where
  "startswith s p = (take (length p) s = p)"

text \<open>Python's \<^verbatim>\<open>s.rsplit('/', 1)[-1]\<close>: what follows the last slash.\<close>

definition rsplit_last :: "string \<Rightarrow> string" where
  "rsplit_last s = rev (takeWhile (\<lambda>c. c \<noteq> CHR ''/'') (rev s))"

text \<open>The decimal digit \<open>d\<close>, for \<open>d\<close> below ten.\<close>

definition digit_char :: "nat \<Rightarrow> char" where
  "digit_char d = ''0123456789'' ! d"

text \<open>Python's \<^verbatim>\<open>str(n)\<close> of a non-negative integer.\<close>

fun str_nat :: "nat \<Rightarrow> string" where
  "str_nat n = (if n < 10 then [digit_char n] else str_nat (n div 10) @ [digit_char (n mod 10)])"

declare str_nat.simps [simp del]

definition round_half_even :: "rat \<Rightarrow> int" where
  "round_half_even q =
     (let fl = \<lfloor>q\<rfloor>; r = q - of_int fl
      in if r < 1 / 2 then fl else if 1 / 2 < r then fl + 1
         else if even fl then fl else fl + 1)"

text \<open>
  Python's \<^verbatim>\<open>'{0:.2f}'.format(score)\<close> on the exact value of the score: the value
  rounded to hundredths, ties to even, written with two digits after the point.
\<close>

definition fmt_2f :: "rat \<Rightarrow> string" where
  "fmt_2f q =
     (let n = nat (round_half_even (\<bar>q\<bar> * 100))
      in (if q < 0 then ''-'' else []) @ str_nat (n div 100) @ ''.'' @
         [digit_char (n mod 100 div 10), digit_char (n mod 10)])"

subsection \<open>Tables, arguments and the \<^verbatim>\<open>tax\<close> module\<close>

type_synonym taxid = string
type_synonym bitscore = rat
type_synonym hit = "string \<times> bitscore"

text \<open>
  What \<^verbatim>\<open>tax.find_weighted_LCA\<close> returns: the triple
  \<^verbatim>\<open>(lineages, lineages_scores, based_on_n_ORFs)\<close>, or one of the two strings that
  \<^verbatim>\<open>run\<close> compares its first component with, \<^verbatim>\<open>'no ORFs with taxids found.'\<close> and
  \<^verbatim>\<open>'no lineage whitelisted.'\<close>.
\<close>

datatype wlca =
    No_ORFs_with_taxids_found
  | No_lineage_whitelisted
  | Lineages "taxid list list" "rat list list" nat

text \<open>
  The functions \<^verbatim>\<open>run\<close> calls in the classification loop and does not define: four of
  module \<^verbatim>\<open>tax\<close>, with the arguments in the order of the calls, and the conversion of a
  bit-score to text that \<^verbatim>\<open>'{3}'.format(top_bitscore)\<close> performs.
\<close>

record env =
  find_LCA_for_ORF :: "hit list \<Rightarrow> (string \<rightharpoonup> taxid) \<Rightarrow> (taxid \<rightharpoonup> taxid) \<Rightarrow> (string \<times> bitscore) comp"
  find_lineage :: "taxid \<Rightarrow> (taxid \<rightharpoonup> taxid) \<Rightarrow> taxid list comp"
  star_lineage :: "taxid list \<Rightarrow> taxid set \<Rightarrow> taxid list"
  find_weighted_LCA :: "(string \<times> bitscore) list \<Rightarrow> (taxid \<rightharpoonup> taxid) \<Rightarrow> rat \<Rightarrow> wlca comp"
  str_bitscore :: "bitscore \<Rightarrow> string"

text \<open>The fields of \<^verbatim>\<open>args\<close> the classification reads.\<close>

record args =
  bin_fasta :: string
  f :: rat
  no_stars :: bool

text \<open>The tables loaded before the output files are opened (lines 413 to 462).\<close>

record tables =
  contig_names :: "string list"
  contig2ORFs :: "string \<rightharpoonup> string list"
  ORF2hits :: "string \<rightharpoonup> hit list"
  taxid2parent :: "taxid \<rightharpoonup> taxid"
  fastaid2LCAtaxid :: "string \<rightharpoonup> taxid"
  taxids_with_multiple_offspring :: "taxid set"

subsection \<open>The classification loop of \<^verbatim>\<open>run\<close>\<close>

text \<open>
  What the classification loop changes: the lines written to the two files
  (\<^verbatim>\<open>outf1\<close> is the bin2classification file, \<^verbatim>\<open>outf2\<close> the ORF2LCA file), the list
  \<^verbatim>\<open>LCAs_ORFs\<close> and the counter \<^verbatim>\<open>n_classified_bins\<close>.
\<close>

record state =
  outf1 :: "string list"
  outf2 :: "string list"
  LCAs_ORFs :: "(string \<times> bitscore) list"
  n_classified_bins :: nat

text \<open>
  A \<^verbatim>\<open>for\<close> loop whose body may raise or hang: the state reached and how the loop ended.
\<close>

fun for_each :: "('a \<Rightarrow> 's \<Rightarrow> 's \<times> unit comp) \<Rightarrow> 'a list \<Rightarrow> 's \<Rightarrow> 's \<times> unit comp" where
  "for_each body [] s = (s, Returns ())"
| "for_each body (x # xs) s =
     (case body x s of
        (s', Some (Inr u)) \<Rightarrow> for_each body xs s'
      | (s', r) \<Rightarrow> (s', r))"

text \<open>Lines 485 to 510: the body of \<^verbatim>\<open>for ORF in contig2ORFs[contig]\<close>.\<close>

definition ORF_body :: "env \<Rightarrow> args \<Rightarrow> tables \<Rightarrow> string \<Rightarrow> string \<Rightarrow> state \<Rightarrow> state \<times> unit comp" where
  "ORF_body E A T bin ORF s =
     (case ORF2hits T ORF of
        None \<Rightarrow>
          (s\<lparr>outf2 := outf2 s @ [tsv [ORF, bin, ''ORF has no hit to database'']]\<rparr>, Returns ())
      | Some hits \<Rightarrow>
          (case find_LCA_for_ORF E hits (fastaid2LCAtaxid T) (taxid2parent T) of
             None \<Rightarrow> (s, Hangs)
           | Some (Inl e) \<Rightarrow> (s, Raises e)
           | Some (Inr (taxid, top_bitscore)) \<Rightarrow>
               if startswith taxid ''no taxid found'' then
                 (s\<lparr>outf2 := outf2 s @ [tsv [ORF, bin, taxid, str_bitscore E top_bitscore]],
                    LCAs_ORFs := LCAs_ORFs s @ [(taxid, top_bitscore)]\<rparr>, Returns ())
               else
                 (case find_lineage E taxid (taxid2parent T) of
                    None \<Rightarrow> (s, Hangs)
                  | Some (Inl e) \<Rightarrow> (s, Raises e)
                  | Some (Inr lineage) \<Rightarrow>
                      (let lineage' =
                             (if \<not> no_stars A
                              then star_lineage E lineage (taxids_with_multiple_offspring T)
                              else lineage)
                       in (s\<lparr>outf2 := outf2 s @
                                [tsv [ORF, bin, join '';'' (rev lineage'), str_bitscore E top_bitscore]],
                             LCAs_ORFs := LCAs_ORFs s @ [(taxid, top_bitscore)]\<rparr>, Returns ())))))"

text \<open>Lines 481 to 484: the body of \<^verbatim>\<open>for contig in sorted(contig_names)\<close>.\<close>

definition contig_body :: "env \<Rightarrow> args \<Rightarrow> tables \<Rightarrow> string \<Rightarrow> string \<Rightarrow> state \<Rightarrow> state \<times> unit comp" where
  "contig_body E A T bin contig s =
     (case contig2ORFs T contig of
        None \<Rightarrow> (s, Returns ())
      | Some ORFs \<Rightarrow> for_each (ORF_body E A T bin) ORFs s)"

text \<open>Lines 478 to 510: \<^verbatim>\<open>LCAs_ORFs = []\<close> and the loop over the sorted contigs.\<close>

definition ORF_phase :: "env \<Rightarrow> args \<Rightarrow> tables \<Rightarrow> string \<Rightarrow> state \<Rightarrow> state \<times> unit comp" where
  "ORF_phase E A T bin s =
     for_each (contig_body E A T bin) (sort (contig_names T)) (s\<lparr>LCAs_ORFs := []\<rparr>)"

text \<open>
  The ORFs of the bin in the order in which the two loops of lines 480 to 484 visit them:
  contig by contig in sorted order, the contigs without ORFs skipped.
\<close>

definition ORFs_of_bin :: "tables \<Rightarrow> string list" where
  "ORFs_of_bin T =
     concat (map (\<lambda>contig. case contig2ORFs T contig of None \<Rightarrow> [] | Some ORFs \<Rightarrow> ORFs)
       (sort (contig_names T)))"

text \<open>Lines 540 and 541.\<close>

definition total_n_ORFs :: "tables \<Rightarrow> nat" where
  "total_n_ORFs T =
     sum_list (map (\<lambda>contig. case contig2ORFs T contig of None \<Rightarrow> 0 | Some ORFs \<Rightarrow> length ORFs)
       (contig_names T))"

text \<open>Lines 548 to 578: the row written for the lineage at position \<open>i\<close> of \<open>n\<close>.\<close>

definition bin_row :: "string \<Rightarrow> nat \<Rightarrow> nat \<Rightarrow> nat \<Rightarrow> nat \<Rightarrow> taxid list \<Rightarrow> rat list \<Rightarrow> string" where
  "bin_row bin i n based_on_n_ORFs total_n lineage lineage_scores =
     (let scores = map fmt_2f lineage_scores
      in if n = 1 then
           tsv [bin, ''classified'',
                ''based on '' @ str_nat based_on_n_ORFs @ ''/'' @ str_nat total_n @ '' ORFs'',
                join '';'' (rev lineage), join '';'' (rev scores)]
         else
           tsv [bin, ''classified ('' @ str_nat (i + 1) @ ''/'' @ str_nat n @ '')'',
                ''based on '' @ str_nat based_on_n_ORFs @ ''/'' @ str_nat total_n @ '' ORFs'',
                join '';'' (rev lineage), join '';'' (rev scores)])"

text \<open>
  Lines 543 to 578: \<^verbatim>\<open>for (i, lineage) in enumerate(lineages)\<close>, started at index \<open>i\<close>;
  \<^verbatim>\<open>lineages_scores[i]\<close> raises when the index is out of range.
\<close>

fun write_lineages ::
  "env \<Rightarrow> args \<Rightarrow> tables \<Rightarrow> string \<Rightarrow> nat \<Rightarrow> rat list list \<Rightarrow> nat \<Rightarrow> nat \<Rightarrow> taxid list list \<Rightarrow>
   string list \<Rightarrow> string list \<times> unit comp" where
  "write_lineages E A T bin n lineages_scores based_on_n_ORFs i [] out1 = (out1, Returns ())"
| "write_lineages E A T bin n lineages_scores based_on_n_ORFs i (lineage # rest) out1 =
     (let lineage' =
            (if \<not> no_stars A
             then star_lineage E lineage (taxids_with_multiple_offspring T)
             else lineage)
      in if i < length lineages_scores then
           write_lineages E A T bin n lineages_scores based_on_n_ORFs (i + 1) rest
             (out1 @ [bin_row bin i n based_on_n_ORFs (total_n_ORFs T) lineage' (lineages_scores ! i)])
         else (out1, Raises IndexError))"

text \<open>Lines 478 to 578: the body of \<^verbatim>\<open>for bin_ in bin_list\<close>.\<close>

definition bin_body :: "env \<Rightarrow> args \<Rightarrow> tables \<Rightarrow> string \<Rightarrow> state \<Rightarrow> state \<times> unit comp" where
  "bin_body E A T bin s0 =
     (case ORF_phase E A T bin s0 of
        (s, Some (Inr u)) \<Rightarrow>
          if length (LCAs_ORFs s) = 0 then
            (s\<lparr>outf1 := outf1 s @ [tsv [bin, ''unclassified'', ''no hits to database'']]\<rparr>,
             Returns ())
          else
            (case find_weighted_LCA E (LCAs_ORFs s) (taxid2parent T) (f A) of
               None \<Rightarrow> (s, Hangs)
             | Some (Inl e) \<Rightarrow> (s, Raises e)
             | Some (Inr No_ORFs_with_taxids_found) \<Rightarrow>
                 (s\<lparr>outf1 := outf1 s @
                    [tsv [bin, ''unclassified'', ''hits not found in taxonomy files'']]\<rparr>,
                  Returns ())
             | Some (Inr No_lineage_whitelisted) \<Rightarrow>
                 (s\<lparr>outf1 := outf1 s @
                    [tsv [bin, ''unclassified'',
                          ''no lineage reached minimum bit-score support'']]\<rparr>,
                  Returns ())
             | Some (Inr (Lineages lineages lineages_scores based_on_n_ORFs)) \<Rightarrow>
                 (let s2 = s\<lparr>n_classified_bins := n_classified_bins s + 1\<rparr>;
                      (out1, r) = write_lineages E A T bin (length lineages) lineages_scores
                                    based_on_n_ORFs 0 lineages (outf1 s2)
                  in (s2\<lparr>outf1 := out1\<rparr>, r)))
      | (s, r) \<Rightarrow> (s, r))"

definition header1 :: string where
  "header1 = tsv [''# bin'', ''classification'', ''reason'', ''lineage'', ''lineage scores'']"

definition header2 :: string where
  "header2 = tsv [''# ORF'', ''bin'', ''lineage'', ''bit-score'']"

text \<open>Lines 468 to 472: both files are opened and get their header line.\<close>

definition init_state :: state where
  "init_state = \<lparr>outf1 = [header1], outf2 = [header2], LCAs_ORFs = [], n_classified_bins = 0\<rparr>"

text \<open>
  Lines 468 to 593: the one bin of \<^verbatim>\<open>bin_list\<close> is classified and \<^verbatim>\<open>run\<close> returns.  The
  result is the state when \<^verbatim>\<open>run\<close> stops, and how it stops.  The loaders of lines 413 to
  462 belong to the modules \<^verbatim>\<open>shared\<close> and \<^verbatim>\<open>tax\<close>; the tables are what they returned.
\<close>

definition run :: "env \<Rightarrow> args \<Rightarrow> tables \<Rightarrow> state \<times> unit comp" where
  "run E A T =
     (let bin_list = [rsplit_last (bin_fasta A)]
      in for_each (bin_body E A T) bin_list init_state)"



subsection \<open>The options \<^verbatim>\<open>-r\<close> and \<^verbatim>\<open>-f\<close> of \<^verbatim>\<open>parse_arguments\<close>\<close>

text \<open>
  A Python float is the rational number it holds.  \<open>binary64 q\<close> is the float nearest to
  \<open>q\<close>, ties to even, as Python's \<^verbatim>\<open>float(text)\<close>, its float literals and its division
  \<^verbatim>\<open>i / 100\<close> of integers round; the definition covers the normal range of the format, in
  which the values of both options lie.  \<open>floor_log2 q\<close> is the exponent \<open>e\<close> of a positive
  \<open>q\<close>: the power \<open>2 ^ e\<close> is at most \<open>q\<close> and \<open>q\<close> is less than \<open>2 ^ (e + 1)\<close>.
\<close>

definition pow2 :: "int \<Rightarrow> rat" where
  "pow2 e = (if 0 \<le> e then 2 ^ nat e else 1 / 2 ^ nat (- e))"

definition floor_log2 :: "rat \<Rightarrow> int" where
  "floor_log2 q = (if 1 \<le> q then bitlen \<lfloor>q\<rfloor> - 1 else - bitlen (\<lceil>1 / q\<rceil> - 1))"

definition binary64 :: "rat \<Rightarrow> rat" where
  "binary64 q =
     (if q = 0 then 0
      else (let ulp = pow2 (floor_log2 \<bar>q\<bar> - 52)
            in sgn q * of_int (round_half_even (\<bar>q\<bar> / ulp)) * ulp))"

text \<open>
  Lines 60 and 71: \<^verbatim>\<open>choices = [i for i in range(50)]\<close> and
  \<^verbatim>\<open>choices = [i / 100 for i in range(0, 100)]\<close>.
\<close>

definition r_choices :: "rat list" where
  "r_choices = map of_int [0..49]"

definition f_choices :: "rat list" where
  "f_choices = map (\<lambda>i. binary64 (of_int i / 100)) [0..99]"

text \<open>
  Lines 59 to 61 and 70 to 72: \<^verbatim>\<open>argparse\<close> converts the text of the option with
  \<^verbatim>\<open>type=float\<close> and refuses the value unless it is one of the choices.  The argument is the
  number the text denotes.
\<close>

definition accepts_r :: "rat \<Rightarrow> bool" where
  "accepts_r v = (binary64 v \<in> set r_choices)"

definition accepts_f :: "rat \<Rightarrow> bool" where
  "accepts_f v = (binary64 v \<in> set f_choices)"

text \<open>
  Lines 62 and 73: the defaults \<^verbatim>\<open>decimal.Decimal(5)\<close> and \<^verbatim>\<open>decimal.Decimal(0.3)\<close>; a
  \<^verbatim>\<open>Decimal\<close> made from a float holds the value of the float exactly.
\<close>

definition default_r :: rat where
  "default_r = 5"

definition default_f :: rat where
  "default_f = binary64 (3 / 10)"

subsection \<open>The functions of module \<^verbatim>\<open>tax\<close>, from their specification\<close>

text \<open>
  Modelled from the spec: \<^verbatim>\<open>tax.find_lineage\<close> (module \<^verbatim>\<open>tax\<close> is not part of
  \<^verbatim>\<open>single_bin.py\<close>), section 4.5: walk the parent pointers from the taxon id, appending
  each visited id, until a node is its own parent, the root included; a parent lookup that
  misses fails with \<open>UnknownTaxonId\<close>.  On a parent map with a cycle the walk does not end.
\<close>

partial_function (option) find_lineage_spec :: "taxid \<Rightarrow> (taxid \<rightharpoonup> taxid) \<Rightarrow> taxid list comp" where
  "find_lineage_spec taxid t2p =
     (case t2p taxid of
        None \<Rightarrow> Raises (UnknownTaxonId taxid)
      | Some parent \<Rightarrow>
          if parent = taxid then Returns [taxid]
          else Option.bind (find_lineage_spec parent t2p)
                 (\<lambda>r. case r of Inl e \<Rightarrow> Raises e | Inr lineage \<Rightarrow> Returns (taxid # lineage)))"

declare find_lineage_spec.simps [code]

text \<open>
  Modelled from the spec: \<^verbatim>\<open>tax.star_lineage\<close>, section 4.5 (\<open>annotate\<close>): each entry of the
  lineage that is in the ambiguity set gets the marker, a star.
\<close>

definition star_lineage_spec :: "taxid list \<Rightarrow> taxid set \<Rightarrow> taxid list" where
  "star_lineage_spec lineage ambiguous = map (\<lambda>t. if t \<in> ambiguous then t @ ''*'' else t) lineage"

text \<open>
  The outcome \<open>Unresolved reason\<close> of the specification in the encoding of the source: a
  string that \<^verbatim>\<open>run\<close> recognises by its prefix \<^verbatim>\<open>'no taxid found'\<close>.
\<close>

definition unresolved :: "string \<Rightarrow> string" where
  "unresolved reason = ''no taxid found ('' @ reason @ '')''"

text \<open>The lineages of a list of taxon ids; the first walk that fails fails the whole.\<close>

fun lineages_of :: "taxid list \<Rightarrow> (taxid \<rightharpoonup> taxid) \<Rightarrow> taxid list list comp" where
  "lineages_of [] t2p = Returns []"
| "lineages_of (x # xs) t2p =
     (case find_lineage_spec x t2p of
        None \<Rightarrow> Hangs
      | Some (Inl e) \<Rightarrow> Raises e
      | Some (Inr l) \<Rightarrow>
          (case lineages_of xs t2p of
             None \<Rightarrow> Hangs
           | Some (Inl e) \<Rightarrow> Raises e
           | Some (Inr ls) \<Rightarrow> Returns (l # ls)))"

text \<open>
  Modelled from the spec: \<^verbatim>\<open>tax.find_LCA_for_ORF\<close>, section 4.4 (\<open>classify\<close>), steps 1 to 7,
  with the range parameter \<open>r\<close> of the specification as first argument.  The lowest common
  ancestor is the first entry of the first lineage that lies on every lineage.
\<close>

definition find_LCA_for_ORF_spec ::
  "rat \<Rightarrow> hit list \<Rightarrow> (string \<rightharpoonup> taxid) \<Rightarrow> (taxid \<rightharpoonup> taxid) \<Rightarrow> (string \<times> bitscore) comp" where
  "find_LCA_for_ORF_spec r hits index t2p =
     (if hits = [] then Returns (unresolved ''no hit'', 0)
      else
        (let top_bitscore = Max (set (map snd hits));
             threshold = top_bitscore * (1 - r / 100);
             candidates = filter (\<lambda>(accession, b). threshold \<le> b) hits;
             resolved = List.map_filter (\<lambda>(accession, b). index accession) candidates
         in if resolved = [] then
              Returns (unresolved ''no taxon id found among candidate hits'', top_bitscore)
            else
              (case lineages_of resolved t2p of
                 None \<Rightarrow> Hangs
               | Some (Inl e) \<Rightarrow> Raises e
               | Some (Inr []) \<Rightarrow> Raises NoCommonAncestor
               | Some (Inr (first # others)) \<Rightarrow>
                   (case find (\<lambda>t. \<forall>l \<in> set others. t \<in> set l) first of
                      None \<Rightarrow> Raises NoCommonAncestor
                    | Some t \<Rightarrow> Returns (t, top_bitscore)))))"

text \<open>
  The entries of \<^verbatim>\<open>LCAs_ORFs\<close> that carry a taxon id: \<^verbatim>\<open>run\<close> appends the entry of an
  unresolved ORF as well, so the aggregation leaves those out itself.
\<close>

definition resolved_entries :: "(string \<times> bitscore) list \<Rightarrow> (taxid \<times> bitscore) list" where
  "resolved_entries entries = filter (\<lambda>(taxid, b). \<not> startswith taxid ''no taxid found'') entries"

text \<open>Step 3 of section 4.6: each entry expanded to its lineage, weighted by its bit-score.\<close>

fun expand :: "(taxid \<times> bitscore) list \<Rightarrow> (taxid \<rightharpoonup> taxid) \<Rightarrow> (taxid list \<times> bitscore) list comp" where
  "expand [] t2p = Returns []"
| "expand ((taxid, b) # es) t2p =
     (case find_lineage_spec taxid t2p of
        None \<Rightarrow> Hangs
      | Some (Inl e) \<Rightarrow> Raises e
      | Some (Inr l) \<Rightarrow>
          (case expand es t2p of
             None \<Rightarrow> Hangs
           | Some (Inl e) \<Rightarrow> Raises e
           | Some (Inr ls) \<Rightarrow> Returns ((l, b) # ls)))"

text \<open>Step 4: the weight of the entries whose lineage contains the node, over the total weight.\<close>

definition support :: "(taxid list \<times> bitscore) list \<Rightarrow> rat \<Rightarrow> taxid \<Rightarrow> rat" where
  "support ls total_weight node =
     sum_list (map snd (filter (\<lambda>(l, w). node \<in> set l) ls)) / total_weight"

text \<open>The lineage of a node that lies on one of the expanded lineages: from the node to the root.\<close>

definition lineage_in :: "(taxid list \<times> bitscore) list \<Rightarrow> taxid \<Rightarrow> taxid list" where
  "lineage_in ls node =
     (case find (\<lambda>(l, w). node \<in> set l) ls of
        None \<Rightarrow> []
      | Some (l, w) \<Rightarrow> dropWhile (\<lambda>x. x \<noteq> node) l)"

text \<open>
  Step 5: the nodes whose support and whose ancestors' support reach the fraction, and
  among them those of maximal depth, which are on the lineage of no other such node; in the
  order in which the nodes first occur in the expanded lineages.
\<close>

definition qualifying :: "(taxid list \<times> bitscore) list \<Rightarrow> rat \<Rightarrow> rat \<Rightarrow> taxid list" where
  "qualifying ls total_weight fr =
     filter (\<lambda>node. \<forall>a \<in> set (lineage_in ls node). fr \<le> support ls total_weight a)
       (remdups (concat (map fst ls)))"

definition selected :: "(taxid list \<times> bitscore) list \<Rightarrow> rat \<Rightarrow> rat \<Rightarrow> taxid list" where
  "selected ls total_weight fr =
     (let q = qualifying ls total_weight fr
      in filter (\<lambda>node. \<not> (\<exists>m \<in> set q. m \<noteq> node \<and> node \<in> set (lineage_in ls m))) q)"

text \<open>
  Modelled from the spec: \<^verbatim>\<open>tax.find_weighted_LCA\<close>, section 4.6 (\<open>classify_bin\<close>), steps
  1 to 7, on the entries that carry a taxon id.  The two reasons of the specification are
  the two strings \<^verbatim>\<open>run\<close> compares with; a total weight of zero makes the division of step
  4 fail.  A lineage runs from its node up to the root, and \<^verbatim>\<open>run\<close> writes it reversed.
\<close>

definition find_weighted_LCA_spec :: "(string \<times> bitscore) list \<Rightarrow> (taxid \<rightharpoonup> taxid) \<Rightarrow> rat \<Rightarrow> wlca comp" where
  "find_weighted_LCA_spec entries t2p fr =
     (let es = resolved_entries entries
      in if es = [] then Returns No_ORFs_with_taxids_found
         else
           (case expand es t2p of
              None \<Rightarrow> Hangs
            | Some (Inl e) \<Rightarrow> Raises e
            | Some (Inr ls) \<Rightarrow>
                (let total_weight = sum_list (map snd es)
                 in if total_weight = 0 then Raises ZeroDivisionError
                    else
                      (let sel = selected ls total_weight fr
                       in if sel = [] then Returns No_lineage_whitelisted
                          else
                            Returns (Lineages
                              (map (lineage_in ls) sel)
                              (map (\<lambda>node. map (support ls total_weight) (lineage_in ls node)) sel)
                              (length (filter (\<lambda>(l, w). \<exists>node \<in> set sel. node \<in> set l) ls)))))))"

text \<open>
  Python's \<^verbatim>\<open>str\<close> of a bit-score whose value is a short decimal fraction, as the scores
  read from an alignment table are: \<^verbatim>\<open>'100.0'\<close>, \<^verbatim>\<open>'52.4'\<close>.
\<close>

fun frac_digits :: "nat \<Rightarrow> rat \<Rightarrow> string" where
  "frac_digits 0 r = []"
| "frac_digits (Suc n) r =
     (if r = 0 then []
      else (let d = nat \<lfloor>r * 10\<rfloor> in digit_char d # frac_digits n (r * 10 - of_nat d)))"

definition str_decimal :: "rat \<Rightarrow> string" where
  "str_decimal q =
     (let a = \<bar>q\<bar>; whole = nat \<lfloor>a\<rfloor>; ds = frac_digits 17 (a - of_nat whole)
      in (if q < 0 then ''-'' else []) @ str_nat whole @ ''.'' @ (if ds = [] then ''0'' else ds))"

text \<open>The module \<^verbatim>\<open>tax\<close> as specified, for the range parameter \<open>r\<close>.\<close>

definition tax_spec :: "rat \<Rightarrow> env" where
  "tax_spec r =
     \<lparr>find_LCA_for_ORF = find_LCA_for_ORF_spec r,
      find_lineage = find_lineage_spec,
      star_lineage = star_lineage_spec,
      find_weighted_LCA = find_weighted_LCA_spec,
      str_bitscore = str_decimal\<rparr>"

subsection \<open>The scenarios of the specification\<close>

text \<open>The tree of the scenarios: 1 is the root, 2 its child, 3 and 4 the children of 2.\<close>

definition tree :: "taxid \<rightharpoonup> taxid" where
  "tree = map_of [(''1'', ''1''), (''2'', ''1''), (''3'', ''2''), (''4'', ''2'')]"

definition bin_args :: "rat \<Rightarrow> bool \<Rightarrow> args" where
  "bin_args fr ns = \<lparr>bin_fasta = ''bins/bin1.fa'', f = fr, no_stars = ns\<rparr>"

text \<open>
  Scenario 2: a bin of one contig with exactly two ORFs; the first hits a sequence of taxon
  3 with bit-score 100, the second a sequence of taxon 4 with bit-score 50.
\<close>

definition two_ORFs :: tables where
  "two_ORFs =
     \<lparr>contig_names = [''c1''],
      contig2ORFs = map_of [(''c1'', [''c1_1'', ''c1_2''])],
      ORF2hits = map_of [(''c1_1'', [(''accA'', 100)]), (''c1_2'', [(''accB'', 50)])],
      taxid2parent = tree,
      fastaid2LCAtaxid = map_of [(''accA'', ''3''), (''accB'', ''4'')],
      taxids_with_multiple_offspring = {''2''}\<rparr>"


text \<open>Scenario 4: the same bin when the accession index knows neither sequence.\<close>

definition unknown_hits :: tables where
  "unknown_hits = two_ORFs\<lparr>fastaid2LCAtaxid := Map.empty\<rparr>"

text \<open>The same bin when no ORF has a hit.\<close>

definition no_hits :: tables where
  "no_hits = two_ORFs\<lparr>ORF2hits := Map.empty\<rparr>"

text \<open>
  A bin of three contigs, named out of order, one of them without ORFs; the ORF of
  contig \<^verbatim>\<open>c10\<close> has no hit, and the second ORF of contig \<^verbatim>\<open>c2\<close> hits a sequence
  the accession index does not know.
\<close>

definition three_contigs :: tables where
  "three_contigs =
     \<lparr>contig_names = [''c2'', ''c10'', ''c1'', ''c3''],
      contig2ORFs = map_of [(''c1'', [''c1_1'']), (''c2'', [''c2_2'', ''c2_1'']), (''c10'', [''c10_1''])],
      ORF2hits = map_of [(''c1_1'', [(''accA'', 100)]), (''c2_2'', [(''accB'', 50)]),
                         (''c2_1'', [(''accC'', 30)])],
      taxid2parent = tree,
      fastaid2LCAtaxid = map_of [(''accA'', ''3''), (''accB'', ''4'')],
      taxids_with_multiple_offspring = {''2''}\<rparr>"


section \<open>Properties of the classification loop\<close>

subsection \<open>Loops and their bodies\<close>

lemma for_each_single: "for_each body [x] s = body x s"
  by (cases "body x s") (auto split: option.splits sum.splits)

lemma run_bin_body: "run E A T = bin_body E A T (rsplit_last (bin_fasta A)) init_state"
  by (simp add: run_def for_each_single del: for_each.simps)

lemma for_each_append:
  "for_each body (xs @ ys) s =
     (case for_each body xs s of
        (s', Some (Inr u)) \<Rightarrow> for_each body ys s'
      | (s', r) \<Rightarrow> (s', r))"
  by (induction xs arbitrary: s) (auto split: prod.splits option.splits sum.splits)

lemma for_each_invariant:
  assumes "for_each body xs s = (s', r)" and "P s"
    and "\<And>x t t' q. x \<in> set xs \<Longrightarrow> P t \<Longrightarrow> body x t = (t', q) \<Longrightarrow> P t'"
  shows "P s'"
  using assms
proof (induction xs arbitrary: s)
  case Nil
  then show ?case by simp
next
  case (Cons x xs)
  obtain t q where b: "body x s = (t, q)" by (cases "body x s")
  have Pt: "P t" using Cons.prems(2,3) b by auto
  show ?case
  proof (cases "q = Returns ()")
    case True
    with b Cons.prems(1) have "for_each body xs t = (s', r)" by simp
    then show ?thesis
      by (rule Cons.IH[OF _ Pt]) (use Cons.prems(3) in auto)
  next
    case False
    with b Cons.prems(1) have "s' = t"
      by (auto split: option.splits sum.splits)
    then show ?thesis using Pt by simp
  qed
qed

lemma ORF_body_cases:
  assumes "ORF_body E A T bin ORF s = (s', r)"
  obtains
    (stopped) "r \<noteq> Returns ()" "s' = s" "ORF2hits T ORF \<noteq> None"
  | (no_hit) "r = Returns ()" "ORF2hits T ORF = None"
      "s' = s\<lparr>outf2 := outf2 s @ [tsv [ORF, bin, ''ORF has no hit to database'']]\<rparr>"
  | (no_taxid) hits taxid top_bitscore where "r = Returns ()" "ORF2hits T ORF = Some hits"
      "find_LCA_for_ORF E hits (fastaid2LCAtaxid T) (taxid2parent T) = Returns (taxid, top_bitscore)"
      "startswith taxid ''no taxid found''"
      "s' = s\<lparr>outf2 := outf2 s @ [tsv [ORF, bin, taxid, str_bitscore E top_bitscore]],
              LCAs_ORFs := LCAs_ORFs s @ [(taxid, top_bitscore)]\<rparr>"
  | (taxid) hits taxid top_bitscore lineage where "r = Returns ()" "ORF2hits T ORF = Some hits"
      "find_LCA_for_ORF E hits (fastaid2LCAtaxid T) (taxid2parent T) = Returns (taxid, top_bitscore)"
      "\<not> startswith taxid ''no taxid found''"
      "find_lineage E taxid (taxid2parent T) = Returns lineage"
      "s' = s\<lparr>outf2 := outf2 s @
                [tsv [ORF, bin,
                      join '';'' (rev (if \<not> no_stars A
                                       then star_lineage E lineage (taxids_with_multiple_offspring T)
                                       else lineage)),
                      str_bitscore E top_bitscore]],
              LCAs_ORFs := LCAs_ORFs s @ [(taxid, top_bitscore)]\<rparr>"
  using assms unfolding ORF_body_def
  by (auto simp: Let_def split: option.splits sum.splits prod.splits if_splits)

lemma contig_loop_flat:
  "for_each (contig_body E A T bin) cs s =
   for_each (ORF_body E A T bin)
     (concat (map (\<lambda>contig. case contig2ORFs T contig of None \<Rightarrow> [] | Some ORFs \<Rightarrow> ORFs) cs)) s"
proof (induction cs arbitrary: s)
  case Nil
  then show ?case by simp
next
  case (Cons c cs)
  show ?case
  proof (cases "contig2ORFs T c")
    case None
    then show ?thesis using Cons.IH by (simp add: contig_body_def)
  next
    case (Some ORFs)
    then show ?thesis using Cons.IH
      by (simp add: contig_body_def for_each_append split: prod.splits option.splits sum.splits)
  qed
qed

lemma ORF_phase_flat:
  "ORF_phase E A T bin s = for_each (ORF_body E A T bin) (ORFs_of_bin T) (s\<lparr>LCAs_ORFs := []\<rparr>)"
  by (simp add: ORF_phase_def ORFs_of_bin_def contig_loop_flat)


lemma ORF_loop_frame:
  assumes "for_each (ORF_body E A T bin) ORFs s = (s', r)"
  shows "outf1 s' = outf1 s \<and> n_classified_bins s' = n_classified_bins s"
proof -
  let ?P = "\<lambda>t. outf1 t = outf1 s \<and> n_classified_bins t = n_classified_bins s"
  have "?P s'"
  proof (rule for_each_invariant[OF assms, of ?P])
    show "?P s" by simp
  next
    fix x t t' q
    assume "?P t" and "ORF_body E A T bin x t = (t', q)"
    then show "?P t'" by (elim ORF_body_cases) auto
  qed
  then show ?thesis .
qed

lemma ORF_loop_outf2_grows:
  assumes "for_each (ORF_body E A T bin) ORFs s = (s', r)"
  shows "\<exists>rows. outf2 s' = outf2 s @ rows"
proof -
  let ?P = "\<lambda>t. \<exists>rows. outf2 t = outf2 s @ rows"
  show ?thesis
  proof (rule for_each_invariant[OF assms, of ?P])
    show "?P s" by simp
  next
    fix x t t' q
    assume "?P t" and "ORF_body E A T bin x t = (t', q)"
    then show "?P t'" by (elim ORF_body_cases) auto
  qed
qed

lemma ORF_loop_LCAs:
  assumes "for_each (ORF_body E A T bin) ORFs s = (s', Returns ())"
  shows "map Returns (LCAs_ORFs s') =
         map Returns (LCAs_ORFs s) @
         map (\<lambda>ORF. find_LCA_for_ORF E (the (ORF2hits T ORF)) (fastaid2LCAtaxid T) (taxid2parent T))
           (filter (\<lambda>ORF. ORF2hits T ORF \<noteq> None) ORFs)"
  using assms
proof (induction ORFs arbitrary: s)
  case Nil
  then show ?case by simp
next
  case (Cons x xs)
  obtain t q where b: "ORF_body E A T bin x s = (t, q)" by (cases "ORF_body E A T bin x s")
  have q: "q = Returns ()"
    using Cons.prems b by (auto split: option.splits sum.splits)
  with b Cons.prems have rest: "for_each (ORF_body E A T bin) xs t = (s', Returns ())" by simp
  note IH = Cons.IH[OF rest]
  from b show ?case
  proof (cases rule: ORF_body_cases)
    case stopped
    with q show ?thesis by simp
  next
    case no_hit
    with IH show ?thesis by simp
  next
    case (no_taxid hits taxid top_bitscore)
    with IH show ?thesis by simp
  next
    case (taxid hits taxid top_bitscore lineage)
    with IH show ?thesis by simp
  qed
qed

lemma tsv_first: "ys \<noteq> [] \<Longrightarrow> tsv (x # ys) = x @ TAB # join [TAB] ys @ [NL]"
  by (cases ys) (simp_all add: tsv_def)

lemma ORF_loop_rows_in_order:
  assumes "for_each (ORF_body E A T bin) ORFs s = (s', r)"
  shows "\<exists>rests. length rests \<le> length ORFs \<and> (r = Returns () \<longrightarrow> length rests = length ORFs) \<and>
           outf2 s' = outf2 s @ map2 (\<lambda>ORF rest. ORF @ TAB # rest) ORFs rests"
  using assms
proof (induction ORFs arbitrary: s)
  case Nil
  then show ?case by simp
next
  case (Cons x xs)
  obtain t q where b: "ORF_body E A T bin x s = (t, q)" by (cases "ORF_body E A T bin x s")
  show ?case
  proof (cases "q = Returns ()")
    case False
    with b Cons.prems have "s' = t" "r = q" by (auto split: option.splits sum.splits)
    moreover from b False have "t = s" by (elim ORF_body_cases) auto
    ultimately show ?thesis using False by (intro exI[of _ "[]"]) simp
  next
    case True
    with b Cons.prems have rest: "for_each (ORF_body E A T bin) xs t = (s', r)" by simp
    from Cons.IH[OF rest] obtain rests where
      rests: "length rests \<le> length xs" "r = Returns () \<longrightarrow> length rests = length xs"
        "outf2 s' = outf2 t @ map2 (\<lambda>ORF rest. ORF @ TAB # rest) xs rests"
      by blast
    from b True obtain rest1 where "outf2 t = outf2 s @ [x @ TAB # rest1]"
      by (elim ORF_body_cases) (auto simp: tsv_first)
    with rests show ?thesis
      by (intro exI[of _ "rest1 # rests"]) simp
  qed
qed


lemma write_lineages_rows:
  assumes "write_lineages E A T bin n lineages_scores based i lineages out1 = (out1', r)"
  shows "\<exists>m \<le> length lineages.
           out1' = out1 @
             map (\<lambda>j. bin_row bin (i + j) n based (total_n_ORFs T)
                        (if \<not> no_stars A
                         then star_lineage E (lineages ! j) (taxids_with_multiple_offspring T)
                         else lineages ! j)
                        (lineages_scores ! (i + j))) [0..<m] \<and>
           (\<forall>j<m. i + j < length lineages_scores) \<and>
           (if m = length lineages then r = Returns ()
            else r = Raises IndexError \<and> length lineages_scores \<le> i + m)"
  using assms
proof (induction lineages arbitrary: i out1)
  case Nil
  then show ?case by simp
next
  case (Cons l ls)
  show ?case
  proof (cases "i < length lineages_scores")
    case False
    with Cons.prems have "out1' = out1" "r = Raises IndexError" by (auto simp: Let_def)
    with False show ?thesis
      by (intro exI[of _ 0]) simp
  next
    case True
    let ?row = "bin_row bin i n based (total_n_ORFs T)
                  (if \<not> no_stars A then star_lineage E l (taxids_with_multiple_offspring T) else l)
                  (lineages_scores ! i)"
    from True Cons.prems
    have "write_lineages E A T bin n lineages_scores based (i + 1) ls (out1 @ [?row]) = (out1', r)"
      by (simp add: Let_def)
    from Cons.IH[OF this] obtain m where m: "m \<le> length ls"
      "out1' = (out1 @ [?row]) @
         map (\<lambda>j. bin_row bin (i + 1 + j) n based (total_n_ORFs T)
                    (if \<not> no_stars A
                     then star_lineage E (ls ! j) (taxids_with_multiple_offspring T)
                     else ls ! j)
                    (lineages_scores ! (i + 1 + j))) [0..<m]"
      "\<forall>j<m. i + 1 + j < length lineages_scores"
      "if m = length ls then r = Returns ()
       else r = Raises IndexError \<and> length lineages_scores \<le> i + 1 + m"
      by blast
    have shift: "[0..<Suc m] = 0 # map Suc [0..<m]"
      by (simp add: upt_conv_Cons map_Suc_upt del: upt_Suc)
    have bound: "\<forall>j<Suc m. i + j < length lineages_scores"
    proof (intro allI impI)
      fix j assume "j < Suc m"
      then show "i + j < length lineages_scores"
        using True m(3) by (cases j) auto
    qed
    show ?thesis
      using m(1,2,4) bound
      by (intro exI[of _ "Suc m"]) (auto simp: shift comp_def simp del: upt_Suc split: if_splits)
  qed
qed

lemma bin_body_cases:
  assumes "bin_body E A T bin s0 = (s', r)"
  obtains
    (ORFs_stopped) "ORF_phase E A T bin s0 = (s', r)" "r \<noteq> Returns ()"
  | (no_hits) s where "ORF_phase E A T bin s0 = (s, Returns ())" "LCAs_ORFs s = []"
      "r = Returns ()"
      "s' = s\<lparr>outf1 := outf1 s @ [tsv [bin, ''unclassified'', ''no hits to database'']]\<rparr>"
  | (LCA_stopped) "ORF_phase E A T bin s0 = (s', Returns ())" "LCAs_ORFs s' \<noteq> []"
      "r \<noteq> Returns ()"
      "find_weighted_LCA E (LCAs_ORFs s') (taxid2parent T) (f A) = Hangs \<and> r = Hangs \<or>
       (\<exists>e. find_weighted_LCA E (LCAs_ORFs s') (taxid2parent T) (f A) = Raises e \<and> r = Raises e)"
  | (no_taxids) s where "ORF_phase E A T bin s0 = (s, Returns ())" "LCAs_ORFs s \<noteq> []"
      "find_weighted_LCA E (LCAs_ORFs s) (taxid2parent T) (f A) = Returns No_ORFs_with_taxids_found"
      "r = Returns ()"
      "s' = s\<lparr>outf1 := outf1 s @ [tsv [bin, ''unclassified'', ''hits not found in taxonomy files'']]\<rparr>"
  | (not_whitelisted) s where "ORF_phase E A T bin s0 = (s, Returns ())" "LCAs_ORFs s \<noteq> []"
      "find_weighted_LCA E (LCAs_ORFs s) (taxid2parent T) (f A) = Returns No_lineage_whitelisted"
      "r = Returns ()"
      "s' = s\<lparr>outf1 := outf1 s @
               [tsv [bin, ''unclassified'', ''no lineage reached minimum bit-score support'']]\<rparr>"
  | (classified) s lineages lineages_scores based out1 where
      "ORF_phase E A T bin s0 = (s, Returns ())" "LCAs_ORFs s \<noteq> []"
      "find_weighted_LCA E (LCAs_ORFs s) (taxid2parent T) (f A) =
         Returns (Lineages lineages lineages_scores based)"
      "write_lineages E A T bin (length lineages) lineages_scores based 0 lineages (outf1 s) = (out1, r)"
      "s' = s\<lparr>n_classified_bins := n_classified_bins s + 1, outf1 := out1\<rparr>"
  using assms unfolding bin_body_def
  by (auto simp: Let_def split: prod.splits option.splits sum.splits wlca.splits if_splits)


lemma ORF_phase_frame:
  assumes "ORF_phase E A T bin s0 = (s, r)"
  shows "outf1 s = outf1 s0 \<and> n_classified_bins s = n_classified_bins s0 \<and>
         (\<exists>rows. outf2 s = outf2 s0 @ rows)"
  using ORF_loop_frame[of E A T bin "ORFs_of_bin T" "s0\<lparr>LCAs_ORFs := []\<rparr>" s r]
    ORF_loop_outf2_grows[of E A T bin "ORFs_of_bin T" "s0\<lparr>LCAs_ORFs := []\<rparr>" s r] assms
  by (simp add: ORF_phase_flat)


subsection \<open>Both reports are created, and an unclassified bin ends the run normally\<close>




subsection \<open>The rows of the per-ORF report\<close>

lemma ORF_loop_rows:
  assumes "for_each (ORF_body E A T bin) ORFs s = (s', r)"
    and "\<And>ORF t t' q. ORF \<in> set ORFs \<Longrightarrow> ORF_body E A T bin ORF t = (t', q) \<Longrightarrow>
           outf2 t' = outf2 t \<or> (\<exists>row. outf2 t' = outf2 t @ [row] \<and> Q row)"
  shows "\<exists>rows. outf2 s' = outf2 s @ rows \<and> (\<forall>row \<in> set rows. Q row)"
proof -
  let ?P = "\<lambda>t. \<exists>rows. outf2 t = outf2 s @ rows \<and> (\<forall>row \<in> set rows. Q row)"
  show ?thesis
  proof (rule for_each_invariant[OF assms(1), of ?P])
    show "?P s" by simp
  next
    fix x t t' q
    assume x: "x \<in> set ORFs" and t: "?P t" and b: "ORF_body E A T bin x t = (t', q)"
    from t obtain rows where rows: "outf2 t = outf2 s @ rows" "\<forall>row \<in> set rows. Q row" by blast
    from assms(2)[OF x b] show "?P t'"
    proof
      assume "outf2 t' = outf2 t"
      with rows show ?thesis by auto
    next
      assume "\<exists>row. outf2 t' = outf2 t @ [row] \<and> Q row"
      then obtain row where "outf2 t' = outf2 t @ [row]" "Q row" by blast
      with rows show ?thesis by (intro exI[of _ "rows @ [row]"]) auto
    qed
  qed
qed

text \<open>
  Claim C5, as the code has it.  The per-ORF report starts with its header, and every
  other row is one of three: for an ORF without hits the three cells ORF, bin and
  \<^verbatim>\<open>ORF has no hit to database\<close>; for an ORF whose hits give no taxon id the four cells
  ORF, bin, the \<^verbatim>\<open>no taxid found\<close> string and the top bit-score; for a classified ORF the
  four cells ORF, bin, the lineage reversed (so that the last entry \<^verbatim>\<open>find_lineage\<close>
  returns comes first) and joined by semicolons, and the top bit-score.
\<close>

theorem per_ORF_rows:
  assumes "run E A T = (s, r)"
  shows "hd (outf2 s) = header2 \<and>
    (\<forall>row \<in> set (tl (outf2 s)).
       (\<exists>ORF. ORF \<in> set (ORFs_of_bin T) \<and> ORF2hits T ORF = None \<and>
          row = tsv [ORF, rsplit_last (bin_fasta A), ''ORF has no hit to database'']) \<or>
       (\<exists>ORF hits taxid top_bitscore. ORF \<in> set (ORFs_of_bin T) \<and> ORF2hits T ORF = Some hits \<and>
          find_LCA_for_ORF E hits (fastaid2LCAtaxid T) (taxid2parent T) = Returns (taxid, top_bitscore) \<and>
          startswith taxid ''no taxid found'' \<and>
          row = tsv [ORF, rsplit_last (bin_fasta A), taxid, str_bitscore E top_bitscore]) \<or>
       (\<exists>ORF hits taxid top_bitscore lineage. ORF \<in> set (ORFs_of_bin T) \<and> ORF2hits T ORF = Some hits \<and>
          find_LCA_for_ORF E hits (fastaid2LCAtaxid T) (taxid2parent T) = Returns (taxid, top_bitscore) \<and>
          \<not> startswith taxid ''no taxid found'' \<and>
          find_lineage E taxid (taxid2parent T) = Returns lineage \<and>
          row = tsv [ORF, rsplit_last (bin_fasta A),
                     join '';'' (rev (if no_stars A then lineage
                                      else star_lineage E lineage (taxids_with_multiple_offspring T))),
                     str_bitscore E top_bitscore]))"
proof -
  let ?bin = "rsplit_last (bin_fasta A)"
  let ?Q = "\<lambda>row.
       (\<exists>ORF. ORF \<in> set (ORFs_of_bin T) \<and> ORF2hits T ORF = None \<and>
          row = tsv [ORF, ?bin, ''ORF has no hit to database'']) \<or>
       (\<exists>ORF hits taxid top_bitscore. ORF \<in> set (ORFs_of_bin T) \<and> ORF2hits T ORF = Some hits \<and>
          find_LCA_for_ORF E hits (fastaid2LCAtaxid T) (taxid2parent T) = Returns (taxid, top_bitscore) \<and>
          startswith taxid ''no taxid found'' \<and>
          row = tsv [ORF, ?bin, taxid, str_bitscore E top_bitscore]) \<or>
       (\<exists>ORF hits taxid top_bitscore lineage. ORF \<in> set (ORFs_of_bin T) \<and> ORF2hits T ORF = Some hits \<and>
          find_LCA_for_ORF E hits (fastaid2LCAtaxid T) (taxid2parent T) = Returns (taxid, top_bitscore) \<and>
          \<not> startswith taxid ''no taxid found'' \<and>
          find_lineage E taxid (taxid2parent T) = Returns lineage \<and>
          row = tsv [ORF, ?bin,
                     join '';'' (rev (if no_stars A then lineage
                                      else star_lineage E lineage (taxids_with_multiple_offspring T))),
                     str_bitscore E top_bitscore])"
  obtain s1 r1 where ph: "ORF_phase E A T ?bin init_state = (s1, r1)"
    by (cases "ORF_phase E A T ?bin init_state")
  then have loop: "for_each (ORF_body E A T ?bin) (ORFs_of_bin T) (init_state\<lparr>LCAs_ORFs := []\<rparr>) = (s1, r1)"
    by (simp add: ORF_phase_flat)
  have "\<exists>rows. outf2 s1 = outf2 (init_state\<lparr>LCAs_ORFs := []\<rparr>) @ rows \<and> (\<forall>row \<in> set rows. ?Q row)"
  proof (rule ORF_loop_rows[OF loop])
    fix ORF t t' q
    assume mem: "ORF \<in> set (ORFs_of_bin T)" and b: "ORF_body E A T ?bin ORF t = (t', q)"
    from b show "outf2 t' = outf2 t \<or> (\<exists>row. outf2 t' = outf2 t @ [row] \<and> ?Q row)"
    proof (cases rule: ORF_body_cases)
      case stopped
      then show ?thesis by simp
    next
      case no_hit
      let ?row = "tsv [ORF, ?bin, ''ORF has no hit to database'']"
      have "?Q ?row" using mem no_hit(2) by blast
      moreover have "outf2 t' = outf2 t @ [?row]" using no_hit(3) by simp
      ultimately show ?thesis by blast
    next
      case (no_taxid hits taxid top_bitscore)
      let ?row = "tsv [ORF, ?bin, taxid, str_bitscore E top_bitscore]"
      have "?Q ?row" using mem no_taxid(2,3,4) by blast
      moreover have "outf2 t' = outf2 t @ [?row]" using no_taxid(5) by simp
      ultimately show ?thesis by blast
    next
      case (taxid hits taxid top_bitscore lineage)
      let ?row = "tsv [ORF, ?bin,
                     join '';'' (rev (if no_stars A then lineage
                                      else star_lineage E lineage (taxids_with_multiple_offspring T))),
                     str_bitscore E top_bitscore]"
      have "?Q ?row" using mem taxid(2,3,4,5) by blast
      moreover have "outf2 t' = outf2 t @ [?row]" using taxid(6) by simp
      ultimately show ?thesis by blast
    qed
  qed
  then obtain rows where rows: "outf2 s1 = header2 # rows" "\<forall>row \<in> set rows. ?Q row"
    by (auto simp: init_state_def)
  have "outf2 s = outf2 s1"
  proof -
    have b: "bin_body E A T ?bin init_state = (s, r)"
      using assms by (simp add: run_bin_body)
    from b ph show ?thesis
      by (cases rule: bin_body_cases) auto
  qed
  with rows show ?thesis by simp
qed

theorem per_ORF_rows_witness:
  "outf2 (fst (run (tax_spec 5) (bin_args (3 / 10) False) three_contigs)) ! 2
     \<in> set (tl (outf2 (fst (run (tax_spec 5) (bin_args (3 / 10) False) three_contigs)))) \<and>
   hd (outf2 (fst (run (tax_spec 5) (bin_args (3 / 10) False) three_contigs))) = header2 \<and>
   (\<exists>ORF cells. ORF \<in> set (ORFs_of_bin three_contigs) \<and>
      outf2 (fst (run (tax_spec 5) (bin_args (3 / 10) False) three_contigs)) ! 2 =
        tsv (ORF # rsplit_last (bin_fasta (bin_args (3 / 10) False)) # cells))"
proof -
  let ?R = "run (tax_spec 5) (bin_args (3 / 10) False) three_contigs"
  have p: "?R = (fst ?R, snd ?R)" by simp
  have mem: "outf2 (fst ?R) ! 2 \<in> set (tl (outf2 (fst ?R)))" by code_simp
  from per_ORF_rows[OF p] mem show ?thesis by blast
qed

text \<open>
  Claim C5 as stated fails on the row of an ORF without hits: it has the three cells ORF,
  bin and reason, two tabs, where the header and the other rows have four cells.
\<close>

theorem no_hit_row_has_three_cells:
  "outf2 (fst (run (tax_spec 5) (bin_args (3 / 10) False) three_contigs)) ! 2 =
     tsv [''c10_1'', ''bin1.fa'', ''ORF has no hit to database''] \<and>
   count_list (outf2 (fst (run (tax_spec 5) (bin_args (3 / 10) False) three_contigs)) ! 2) TAB = 2 \<and>
   count_list header2 TAB = 3"
  by code_simp


subsection \<open>The rows of the per-bin report\<close>

lemma digit_char_digit: "d < 10 \<Longrightarrow> digit_char d \<in> set ''0123456789''"
  unfolding digit_char_def by (rule nth_mem) simp

lemma str_nat_digits: "str_nat n \<noteq> [] \<and> set (str_nat n) \<subseteq> set ''0123456789''"
proof (induction n rule: str_nat.induct)
  case (1 n)
  show ?case
  proof (cases "n < 10")
    case True
    then show ?thesis using digit_char_digit[of n] by (simp add: str_nat.simps[of n])
  next
    case False
    have "n mod 10 < 10" by simp
    from digit_char_digit[OF this] 1[OF False] False show ?thesis
      by (simp add: str_nat.simps[of n])
  qed
qed

lemma fmt_2f_two_decimals:
  "\<exists>whole d1 d2. fmt_2f q = (if q < 0 then ''-'' else []) @ whole @ ''.'' @ [d1, d2] \<and>
     whole \<noteq> [] \<and> set (whole @ [d1, d2]) \<subseteq> set ''0123456789''"
proof -
  define n where "n = nat (round_half_even (\<bar>q\<bar> * 100))"
  have d1: "digit_char (n mod 100 div 10) \<in> set ''0123456789''"
    by (rule digit_char_digit) (simp add: div_less_iff_less_mult)
  have d2: "digit_char (n mod 10) \<in> set ''0123456789''"
    by (rule digit_char_digit) simp
  have "fmt_2f q = (if q < 0 then ''-'' else []) @ str_nat (n div 100) @ ''.'' @
          [digit_char (n mod 100 div 10), digit_char (n mod 10)]"
    by (simp add: fmt_2f_def n_def Let_def)
  with str_nat_digits[of "n div 100"] d1 d2 show ?thesis
    by (intro exI[of _ "str_nat (n div 100)"] exI[of _ "digit_char (n mod 100 div 10)"]
        exI[of _ "digit_char (n mod 10)"]) simp
qed

text \<open>
  Claim C6.  The per-bin report starts with its header, and every other row has the bin
  first and one of three forms of status second: \<^verbatim>\<open>unclassified\<close>, followed by a reason;
  \<^verbatim>\<open>classified\<close> when \<^verbatim>\<open>find_weighted_LCA\<close> returned exactly one lineage; or
  \<^verbatim>\<open>classified (i/n)\<close> otherwise, where \<open>n\<close> is the number of lineages returned (two or
  more) and \<open>i\<close> counts the rows from 1.  A classified row continues with the count of
  ORFs, the lineage reversed and joined by semicolons, and the scores of the lineage in
  the same order, each formatted by \<^verbatim>\<open>'{0:.2f}'\<close>; a formatted score is an optional minus
  sign, digits, a point and exactly two digits.
\<close>

theorem per_bin_rows:
  assumes "run E A T = (s, r)"
  shows "hd (outf1 s) = header1 \<and>
    (\<forall>row \<in> set (tl (outf1 s)).
       (\<exists>reason. row = tsv [rsplit_last (bin_fasta A), ''unclassified'', reason]) \<or>
       (\<exists>lineages lineages_scores based i.
          find_weighted_LCA E (LCAs_ORFs s) (taxid2parent T) (f A) =
            Returns (Lineages lineages lineages_scores based) \<and>
          i < length lineages \<and> i < length lineages_scores \<and>
          (length lineages = 1 \<or> 2 \<le> length lineages) \<and>
          row = tsv [rsplit_last (bin_fasta A),
                     if length lineages = 1 then ''classified''
                     else ''classified ('' @ str_nat (i + 1) @ ''/'' @ str_nat (length lineages) @ '')'',
                     ''based on '' @ str_nat based @ ''/'' @ str_nat (total_n_ORFs T) @ '' ORFs'',
                     join '';'' (rev (if no_stars A then lineages ! i
                                      else star_lineage E (lineages ! i) (taxids_with_multiple_offspring T))),
                     join '';'' (rev (map fmt_2f (lineages_scores ! i)))])) \<and>
    (\<forall>q. \<exists>whole d1 d2. fmt_2f q = (if q < 0 then ''-'' else []) @ whole @ ''.'' @ [d1, d2] \<and>
       whole \<noteq> [] \<and> set (whole @ [d1, d2]) \<subseteq> set ''0123456789'')"
proof -
  let ?bin = "rsplit_last (bin_fasta A)"
  have b: "bin_body E A T ?bin init_state = (s, r)"
    using assms by (simp add: run_bin_body)
  have hdr: "\<And>s1 r1. ORF_phase E A T ?bin init_state = (s1, r1) \<Longrightarrow> outf1 s1 = [header1]"
    using ORF_phase_frame by (fastforce simp: init_state_def)
  let ?Row = "\<lambda>row.
       (\<exists>reason. row = tsv [?bin, ''unclassified'', reason]) \<or>
       (\<exists>lineages lineages_scores based i.
          find_weighted_LCA E (LCAs_ORFs s) (taxid2parent T) (f A) =
            Returns (Lineages lineages lineages_scores based) \<and>
          i < length lineages \<and> i < length lineages_scores \<and>
          (length lineages = 1 \<or> 2 \<le> length lineages) \<and>
          row = tsv [?bin,
                     if length lineages = 1 then ''classified''
                     else ''classified ('' @ str_nat (i + 1) @ ''/'' @ str_nat (length lineages) @ '')'',
                     ''based on '' @ str_nat based @ ''/'' @ str_nat (total_n_ORFs T) @ '' ORFs'',
                     join '';'' (rev (if no_stars A then lineages ! i
                                      else star_lineage E (lineages ! i) (taxids_with_multiple_offspring T))),
                     join '';'' (rev (map fmt_2f (lineages_scores ! i)))])"
  have only_header: "outf1 s = [header1] \<Longrightarrow>
      hd (outf1 s) = header1 \<and> (\<forall>row \<in> set (tl (outf1 s)). ?Row row)"
    by simp
  have unclassified: "hd (outf1 s) = header1 \<and> (\<forall>row \<in> set (tl (outf1 s)). ?Row row)"
    if "outf1 s = [header1, tsv [?bin, ''unclassified'', reason]]" for reason
  proof (intro conjI ballI disjI1)
    show "hd (outf1 s) = header1" using that by simp
  next
    fix row assume "row \<in> set (tl (outf1 s))"
    with that show "\<exists>reason. row = tsv [?bin, ''unclassified'', reason]" by auto
  qed
  have rows: "hd (outf1 s) = header1 \<and> (\<forall>row \<in> set (tl (outf1 s)). ?Row row)"
    using b
  proof (cases rule: bin_body_cases)
    case ORFs_stopped
    with hdr show ?thesis by (intro only_header) simp
  next
    case (no_hits t)
    with hdr[OF no_hits(1)] show ?thesis by (intro unclassified) simp
  next
    case LCA_stopped
    with hdr show ?thesis by (intro only_header) simp
  next
    case (no_taxids t)
    with hdr[OF no_taxids(1)] show ?thesis by (intro unclassified) simp
  next
    case (not_whitelisted t)
    with hdr[OF not_whitelisted(1)] show ?thesis by (intro unclassified) simp
  next
    case (classified t lineages lineages_scores based out1)
    from write_lineages_rows[OF classified(4)] obtain m where m: "m \<le> length lineages"
      "out1 = outf1 t @
         map (\<lambda>j. bin_row ?bin (0 + j) (length lineages) based (total_n_ORFs T)
                    (if \<not> no_stars A
                     then star_lineage E (lineages ! j) (taxids_with_multiple_offspring T)
                     else lineages ! j)
                    (lineages_scores ! (0 + j))) [0..<m]"
      "\<forall>j<m. 0 + j < length lineages_scores"
      by blast
    have t: "outf1 t = [header1]" by (rule hdr[OF classified(1)])
    have L: "LCAs_ORFs s = LCAs_ORFs t" using classified(5) by simp
    show ?thesis
    proof (intro conjI ballI)
      show "hd (outf1 s) = header1" using classified(5) m(2) t by simp
    next
      fix row assume "row \<in> set (tl (outf1 s))"
      then obtain j where j: "j < m"
        "row = bin_row ?bin j (length lineages) based (total_n_ORFs T)
                 (if \<not> no_stars A
                  then star_lineage E (lineages ! j) (taxids_with_multiple_offspring T)
                  else lineages ! j)
                 (lineages_scores ! j)"
        using classified(5) m(2) t by auto
      have len: "length lineages = 1 \<or> 2 \<le> length lineages" using j(1) m(1) by linarith
      show "?Row row"
        apply (rule disjI2)
        apply (rule exI[of _ lineages], rule exI[of _ lineages_scores], rule exI[of _ based],
               rule exI[of _ j])
        using classified(3) L j m(1,3) len
        apply (simp add: bin_row_def Let_def rev_map)
        done
    qed
  qed
  from rows fmt_2f_two_decimals show ?thesis by blast
qed

theorem per_bin_rows_witness:
  "outf1 (fst (run (tax_spec 5) (bin_args (3 / 10) False) two_ORFs)) ! 1 \<in> set (tl (outf1 (fst (run (tax_spec 5) (bin_args (3 / 10) False) two_ORFs)))) \<and>
   outf1 (fst (run (tax_spec 5) (bin_args (3 / 10) False) two_ORFs)) ! 1 =
     tsv [''bin1.fa'', ''classified (1/2)'', ''based on 2/2 ORFs'', ''1;2*;3'', ''1.00;1.00;0.67''] \<and>
   ((\<exists>reason. outf1 (fst (run (tax_spec 5) (bin_args (3 / 10) False) two_ORFs)) ! 1 =
        tsv [rsplit_last (bin_fasta (bin_args (3 / 10) False)), ''unclassified'', reason]) \<or>
    (\<exists>lineages lineages_scores based i.
       find_weighted_LCA (tax_spec 5) (LCAs_ORFs (fst (run (tax_spec 5) (bin_args (3 / 10) False) two_ORFs))) (taxid2parent two_ORFs)
         (f (bin_args (3 / 10) False)) = Returns (Lineages lineages lineages_scores based) \<and>
       i < length lineages \<and> i < length lineages_scores \<and>
       (length lineages = 1 \<or> 2 \<le> length lineages) \<and>
       outf1 (fst (run (tax_spec 5) (bin_args (3 / 10) False) two_ORFs)) ! 1 =
         tsv [rsplit_last (bin_fasta (bin_args (3 / 10) False)),
              if length lineages = 1 then ''classified''
              else ''classified ('' @ str_nat (i + 1) @ ''/'' @ str_nat (length lineages) @ '')'',
              ''based on '' @ str_nat based @ ''/'' @ str_nat (total_n_ORFs two_ORFs) @ '' ORFs'',
              join '';'' (rev (if no_stars (bin_args (3 / 10) False) then lineages ! i
                               else star_lineage (tax_spec 5) (lineages ! i)
                                      (taxids_with_multiple_offspring two_ORFs))),
              join '';'' (rev (map fmt_2f (lineages_scores ! i)))]))"
proof -
  let ?R = "run (tax_spec 5) (bin_args (3 / 10) False) two_ORFs"
  have p: "?R = (fst ?R, snd ?R)" by simp
  have mem: "outf1 (fst ?R) ! 1 \<in> set (tl (outf1 (fst ?R)))" by code_simp
  have row: "outf1 (fst ?R) ! 1 =
     tsv [''bin1.fa'', ''classified (1/2)'', ''based on 2/2 ORFs'', ''1;2*;3'', ''1.00;1.00;0.67'']"
    by code_simp
  from per_bin_rows[OF p] mem row show ?thesis by blast
qed


subsection \<open>The list handed to the aggregation\<close>

lemma ORF_loop_keeps_rows:
  assumes "for_each (ORF_body E A T bin) ORFs s = (s', r)"
  shows "set (outf2 s) \<subseteq> set (outf2 s')"
  using ORF_loop_outf2_grows[OF assms] by auto

lemma ORF_loop_reports_no_taxid:
  assumes "for_each (ORF_body E A T bin) ORFs s = (s', Returns ())"
    and "ORF \<in> set ORFs" and "ORF2hits T ORF = Some hits"
    and "find_LCA_for_ORF E hits (fastaid2LCAtaxid T) (taxid2parent T) = Returns (taxid, top_bitscore)"
    and "startswith taxid ''no taxid found''"
  shows "tsv [ORF, bin, taxid, str_bitscore E top_bitscore] \<in> set (outf2 s')"
  using assms(1,2)
proof (induction ORFs arbitrary: s)
  case Nil
  then show ?case by simp
next
  case (Cons x xs)
  obtain t q where b: "ORF_body E A T bin x s = (t, q)" by (cases "ORF_body E A T bin x s")
  have q: "q = Returns ()"
    using Cons.prems(1) b by (auto split: option.splits sum.splits)
  with b Cons.prems(1) have rest: "for_each (ORF_body E A T bin) xs t = (s', Returns ())" by simp
  show ?case
  proof (cases "ORF = x")
    case True
    from b have "tsv [ORF, bin, taxid, str_bitscore E top_bitscore] \<in> set (outf2 t)"
      using True q assms(3,4,5) by (cases rule: ORF_body_cases) auto
    with ORF_loop_keeps_rows[OF rest] show ?thesis by blast
  next
    case False
    with Cons.prems(2) have "ORF \<in> set xs" by simp
    from Cons.IH[OF rest this] show ?thesis .
  qed
qed

text \<open>
  Claim C1, as the code has it.  When the loop over the ORFs of a bin has returned, the
  list \<^verbatim>\<open>LCAs_ORFs\<close>, which \<^verbatim>\<open>run\<close> then hands to \<^verbatim>\<open>find_weighted_LCA\<close>, holds what
  \<^verbatim>\<open>find_LCA_for_ORF\<close> returned for every ORF that has hits, in the order of the ORFs,
  whether the ORF got a taxon id or not; only the ORFs without hits have no entry.  An
  ORF whose hits yield no taxon id is reported in the per-ORF file, and its pair of the
  \<^verbatim>\<open>no taxid found\<close> string and the top bit-score is in the list.
\<close>

theorem LCAs_ORFs_holds_every_ORF_with_hits:
  assumes "ORF_phase E A T bin s0 = (s, Returns ())"
  shows "map Returns (LCAs_ORFs s) =
           map (\<lambda>ORF. find_LCA_for_ORF E (the (ORF2hits T ORF)) (fastaid2LCAtaxid T) (taxid2parent T))
             (filter (\<lambda>ORF. ORF2hits T ORF \<noteq> None) (ORFs_of_bin T)) \<and>
         (\<forall>ORF hits taxid top_bitscore.
            ORF \<in> set (ORFs_of_bin T) \<and> ORF2hits T ORF = Some hits \<and>
            find_LCA_for_ORF E hits (fastaid2LCAtaxid T) (taxid2parent T) = Returns (taxid, top_bitscore) \<and>
            startswith taxid ''no taxid found'' \<longrightarrow>
            tsv [ORF, bin, taxid, str_bitscore E top_bitscore] \<in> set (outf2 s) \<and>
            (taxid, top_bitscore) \<in> set (LCAs_ORFs s))"
proof -
  have loop: "for_each (ORF_body E A T bin) (ORFs_of_bin T) (s0\<lparr>LCAs_ORFs := []\<rparr>) = (s, Returns ())"
    using assms by (simp add: ORF_phase_flat)
  have list: "map Returns (LCAs_ORFs s) =
           map (\<lambda>ORF. find_LCA_for_ORF E (the (ORF2hits T ORF)) (fastaid2LCAtaxid T) (taxid2parent T))
             (filter (\<lambda>ORF. ORF2hits T ORF \<noteq> None) (ORFs_of_bin T))"
    using ORF_loop_LCAs[OF loop] by simp
  have "tsv [ORF, bin, taxid, str_bitscore E top_bitscore] \<in> set (outf2 s) \<and> (taxid, top_bitscore) \<in> set (LCAs_ORFs s)"
    if h: "ORF \<in> set (ORFs_of_bin T)" "ORF2hits T ORF = Some hits"
      "find_LCA_for_ORF E hits (fastaid2LCAtaxid T) (taxid2parent T) = Returns (taxid, top_bitscore)"
      "startswith taxid ''no taxid found''"
    for ORF hits taxid top_bitscore
  proof
    show "tsv [ORF, bin, taxid, str_bitscore E top_bitscore] \<in> set (outf2 s)"
      by (rule ORF_loop_reports_no_taxid[OF loop h])
  next
    have "ORF \<in> set (filter (\<lambda>ORF. ORF2hits T ORF \<noteq> None) (ORFs_of_bin T))"
      using h(1,2) by simp
    then have "Returns (taxid, top_bitscore) \<in> set (map Returns (LCAs_ORFs s))"
      unfolding list using h(2,3) by force
    then show "(taxid, top_bitscore) \<in> set (LCAs_ORFs s)" by auto
  qed
  with list show ?thesis by blast
qed

theorem LCAs_ORFs_holds_every_ORF_with_hits_witness:
  "snd (ORF_phase (tax_spec 5) (bin_args (3 / 10) False) three_contigs ''bin1.fa'' init_state) = Returns () \<and>
   ''c2_1'' \<in> set (ORFs_of_bin three_contigs) \<and>
   ORF2hits three_contigs ''c2_1'' = Some [(''accC'', 30)] \<and>
   find_LCA_for_ORF (tax_spec 5) [(''accC'', 30)] (fastaid2LCAtaxid three_contigs)
     (taxid2parent three_contigs) = Returns (unresolved ''no taxon id found among candidate hits'', 30) \<and>
   startswith (unresolved ''no taxon id found among candidate hits'') ''no taxid found'' \<and>
   tsv [''c2_1'', ''bin1.fa'', unresolved ''no taxon id found among candidate hits'',
        str_bitscore (tax_spec 5) 30]
     \<in> set (outf2 (fst (ORF_phase (tax_spec 5) (bin_args (3 / 10) False) three_contigs ''bin1.fa''
                           init_state))) \<and>
   (unresolved ''no taxon id found among candidate hits'', 30)
     \<in> set (LCAs_ORFs (fst (ORF_phase (tax_spec 5) (bin_args (3 / 10) False) three_contigs ''bin1.fa''
                               init_state)))"
proof -
  let ?O = "ORF_phase (tax_spec 5) (bin_args (3 / 10) False) three_contigs ''bin1.fa'' init_state"
  have h0: "snd ?O = Returns ()" by code_simp
  then have p: "?O = (fst ?O, Returns ())" by (metis prod.collapse)
  have h1: "''c2_1'' \<in> set (ORFs_of_bin three_contigs)" by code_simp
  have h2: "ORF2hits three_contigs ''c2_1'' = Some [(''accC'', 30)]" by code_simp
  have h3: "find_LCA_for_ORF (tax_spec 5) [(''accC'', 30)] (fastaid2LCAtaxid three_contigs)
     (taxid2parent three_contigs) = Returns (unresolved ''no taxon id found among candidate hits'', 30)"
    by code_simp
  have h4: "startswith (unresolved ''no taxon id found among candidate hits'') ''no taxid found''"
    by code_simp
  from LCAs_ORFs_holds_every_ORF_with_hits[OF p] h0 h1 h2 h3 h4 show ?thesis by blast
qed

text \<open>
  Claim C1 as stated fails: in a bin with an ORF whose only hit is to a sequence the
  accession index does not know, the list handed to the aggregation holds the entry of
  that unresolved ORF next to the two resolved ones.
\<close>

theorem LCAs_ORFs_holds_unresolved_entry:
  "LCAs_ORFs (fst (ORF_phase (tax_spec 5) (bin_args (3 / 10) False) three_contigs ''bin1.fa'' init_state)) =
     [(''3'', 100), (''4'', 50), (''no taxid found (no taxon id found among candidate hits)'', 30)] \<and>
   startswith ''no taxid found (no taxon id found among candidate hits)'' ''no taxid found'' \<and>
   snd (ORF_phase (tax_spec 5) (bin_args (3 / 10) False) three_contigs ''bin1.fa'' init_state) = Returns () \<and>
   LCAs_ORFs (fst (run (tax_spec 5) (bin_args (3 / 10) False) three_contigs)) =
     [(''3'', 100), (''4'', 50), (''no taxid found (no taxon id found among candidate hits)'', 30)]"
  by code_simp


subsection \<open>The reasons of an unclassified bin\<close>

text \<open>
  Claim C2, as the code has it.  When the loop over the ORFs has returned with an empty
  list \<^verbatim>\<open>LCAs_ORFs\<close>, which is so exactly when no ORF of the bin has a hit, \<^verbatim>\<open>run\<close> does not
  call \<^verbatim>\<open>find_weighted_LCA\<close> and reports the bin \<^verbatim>\<open>unclassified\<close> with the reason
  \<^verbatim>\<open>no hits to database\<close>.  When the list is not empty and \<^verbatim>\<open>find_weighted_LCA\<close> answers
  \<^verbatim>\<open>'no ORFs with taxids found.'\<close>, as for a bin all of whose hits are to sequences the
  accession index does not know, the bin is reported \<^verbatim>\<open>unclassified\<close> with the reason
  \<^verbatim>\<open>hits not found in taxonomy files\<close>.  In both cases \<^verbatim>\<open>run\<close> returns normally.
\<close>

theorem unclassified_reasons:
  assumes "ORF_phase E A T (rsplit_last (bin_fasta A)) init_state = (s, Returns ())"
  shows "(LCAs_ORFs s = [] \<longleftrightarrow> (\<forall>ORF \<in> set (ORFs_of_bin T). ORF2hits T ORF = None)) \<and>
         (LCAs_ORFs s = [] \<longrightarrow>
            run E A T =
              (s\<lparr>outf1 := [header1, tsv [rsplit_last (bin_fasta A), ''unclassified'',
                                            ''no hits to database'']]\<rparr>, Returns ())) \<and>
         (LCAs_ORFs s \<noteq> [] \<and>
          find_weighted_LCA E (LCAs_ORFs s) (taxid2parent T) (f A) = Returns No_ORFs_with_taxids_found \<longrightarrow>
            run E A T =
              (s\<lparr>outf1 := [header1, tsv [rsplit_last (bin_fasta A), ''unclassified'',
                                            ''hits not found in taxonomy files'']]\<rparr>, Returns ()))"
proof -
  let ?bin = "rsplit_last (bin_fasta A)"
  have hdr: "outf1 s = [header1]"
    using ORF_phase_frame[OF assms] by (simp add: init_state_def)
  have "map Returns (LCAs_ORFs s) =
           map (\<lambda>ORF. find_LCA_for_ORF E (the (ORF2hits T ORF)) (fastaid2LCAtaxid T) (taxid2parent T))
             (filter (\<lambda>ORF. ORF2hits T ORF \<noteq> None) (ORFs_of_bin T))"
    using ORF_loop_LCAs[of E A T ?bin "ORFs_of_bin T" "init_state\<lparr>LCAs_ORFs := []\<rparr>" s] assms
    by (simp add: ORF_phase_flat)
  then have "length (LCAs_ORFs s) = length (filter (\<lambda>ORF. ORF2hits T ORF \<noteq> None) (ORFs_of_bin T))"
    by (metis length_map)
  then have "LCAs_ORFs s = [] \<longleftrightarrow> filter (\<lambda>ORF. ORF2hits T ORF \<noteq> None) (ORFs_of_bin T) = []"
    by (metis length_0_conv)
  then have empty: "LCAs_ORFs s = [] \<longleftrightarrow> (\<forall>ORF \<in> set (ORFs_of_bin T). ORF2hits T ORF = None)"
    by (simp add: filter_empty_conv)
  have "run E A T = bin_body E A T ?bin init_state" by (rule run_bin_body)
  with assms hdr empty show ?thesis
    by (simp add: bin_body_def)
qed

theorem unclassified_reasons_witness:
  "snd (ORF_phase (tax_spec 5) (bin_args (3 / 10) False) unknown_hits ''bin1.fa'' init_state) = Returns () \<and>
   LCAs_ORFs (fst (ORF_phase (tax_spec 5) (bin_args (3 / 10) False) unknown_hits ''bin1.fa'' init_state)) \<noteq> [] \<and>
   find_weighted_LCA (tax_spec 5)
     (LCAs_ORFs (fst (ORF_phase (tax_spec 5) (bin_args (3 / 10) False) unknown_hits ''bin1.fa'' init_state)))
     (taxid2parent unknown_hits) (f (bin_args (3 / 10) False)) = Returns No_ORFs_with_taxids_found \<and>
   run (tax_spec 5) (bin_args (3 / 10) False) unknown_hits =
     ((fst (ORF_phase (tax_spec 5) (bin_args (3 / 10) False) unknown_hits ''bin1.fa'' init_state))
        \<lparr>outf1 := [header1, tsv [''bin1.fa'', ''unclassified'', ''hits not found in taxonomy files'']]\<rparr>,
      Returns ())"
proof -
  let ?E = "tax_spec 5" and ?A = "bin_args (3 / 10) False"
  let ?O = "ORF_phase ?E ?A unknown_hits ''bin1.fa'' init_state"
  have bin: "rsplit_last (bin_fasta ?A) = ''bin1.fa''" by code_simp
  have h0: "snd ?O = Returns ()" by code_simp
  then have p: "ORF_phase ?E ?A unknown_hits (rsplit_last (bin_fasta ?A)) init_state = (fst ?O, Returns ())"
    unfolding bin by (metis prod.collapse)
  have h1: "LCAs_ORFs (fst ?O) \<noteq> []" by code_simp
  have h2: "find_weighted_LCA ?E (LCAs_ORFs (fst ?O)) (taxid2parent unknown_hits) (f ?A) =
              Returns No_ORFs_with_taxids_found" by code_simp
  from unclassified_reasons[OF p] h0 h1 h2 show ?thesis unfolding bin by blast
qed

text \<open>
  Claim C2 as stated fails: the bin without any hit, whose list is empty, and the bin
  whose hits are all unknown to the accession index are reported with two different
  reasons, and neither reason is the one the claim names.
\<close>

theorem two_reasons_for_unclassified:
  "LCAs_ORFs (fst (run (tax_spec 5) (bin_args (3 / 10) False) no_hits)) = [] \<and>
   outf1 (fst (run (tax_spec 5) (bin_args (3 / 10) False) no_hits)) =
     [header1, tsv [''bin1.fa'', ''unclassified'', ''no hits to database'']] \<and>
   outf1 (fst (run (tax_spec 5) (bin_args (3 / 10) False) unknown_hits)) =
     [header1, tsv [''bin1.fa'', ''unclassified'', ''hits not found in taxonomy files'']] \<and>
   ''no hits to database'' \<noteq> ''no ORFs with taxon ids found'' \<and>
   ''hits not found in taxonomy files'' \<noteq> ''no ORFs with taxon ids found'' \<and>
   ''no hits to database'' \<noteq> ''hits not found in taxonomy files''"
  by code_simp


subsection \<open>Stars change the lineage cells only\<close>











subsection \<open>The order of the per-ORF rows\<close>

lemma sort_permutation: "mset cs = mset ds \<Longrightarrow> sort cs = sort (ds :: string list)"
  by (metis mset_sort properties_for_sort sorted_sort)

lemma sum_list_permutation:
  "mset cs = mset ds \<Longrightarrow> sum_list (map g cs) = (sum_list (map g ds) :: nat)"
  by (metis mset_map sum_mset_sum_list)

lemma ORF_body_contig_names: "ORF_body E A (T\<lparr>contig_names := cs\<rparr>) bin = ORF_body E A T bin"
  by (intro ext) (simp add: ORF_body_def split: option.splits sum.splits prod.splits)

lemma write_lineages_contig_names:
  "total_n_ORFs (T\<lparr>contig_names := cs\<rparr>) = total_n_ORFs T \<Longrightarrow>
   write_lineages E A (T\<lparr>contig_names := cs\<rparr>) bin n lineages_scores based i lineages out1 =
   write_lineages E A T bin n lineages_scores based i lineages out1"
  by (induction lineages arbitrary: i out1) (simp_all add: Let_def)

lemma run_contig_names_permuted:
  assumes "mset cs = mset (contig_names T)"
  shows "run E A (T\<lparr>contig_names := cs\<rparr>) = run E A T"
proof -
  have ORFs: "ORFs_of_bin (T\<lparr>contig_names := cs\<rparr>) = ORFs_of_bin T"
    using sort_permutation[OF assms] by (simp add: ORFs_of_bin_def)
  have total: "total_n_ORFs (T\<lparr>contig_names := cs\<rparr>) = total_n_ORFs T"
    using sum_list_permutation[OF assms] by (simp add: total_n_ORFs_def)
  show ?thesis
    by (simp add: run_bin_body bin_body_def ORF_phase_flat ORFs ORF_body_contig_names
        write_lineages_contig_names[OF total]
        split: option.splits sum.splits prod.splits wlca.splits)
qed

text \<open>
  Claim C10.  The model of \<^verbatim>\<open>run\<close> is a function of the tables, the arguments and the
  functions it calls, so two runs on the same inputs write the same files.  The order in
  which \<^verbatim>\<open>contig_names\<close> lists the contigs does not matter: any rearrangement gives the
  same run.  The rows of the per-ORF report after the header begin with the ORFs of the
  bin in the order of \<open>ORFs_of_bin\<close>, contig by contig in sorted order of the contig names
  and within a contig in the order of \<^verbatim>\<open>contig2ORFs\<close>; all of them are there when \<^verbatim>\<open>run\<close>
  returns, and the first of them when it stops early.
\<close>

theorem per_ORF_rows_in_sorted_contig_order:
  assumes "run E A T = (s, r)"
  shows "(\<exists>rests. length rests \<le> length (ORFs_of_bin T) \<and>
            (r = Returns () \<longrightarrow> length rests = length (ORFs_of_bin T)) \<and>
            tl (outf2 s) = map2 (\<lambda>ORF rest. ORF @ TAB # rest) (ORFs_of_bin T) rests) \<and>
         ORFs_of_bin T =
           concat (map (\<lambda>contig. case contig2ORFs T contig of None \<Rightarrow> [] | Some ORFs \<Rightarrow> ORFs)
             (sort (contig_names T))) \<and>
         sorted (sort (contig_names T)) \<and> mset (sort (contig_names T)) = mset (contig_names T) \<and>
         (\<forall>cs. mset cs = mset (contig_names T) \<longrightarrow> run E A (T\<lparr>contig_names := cs\<rparr>) = (s, r))"
proof -
  let ?bin = "rsplit_last (bin_fasta A)"
  have b: "bin_body E A T ?bin init_state = (s, r)"
    using assms by (simp add: run_bin_body)
  obtain s1 r1 where ph: "ORF_phase E A T ?bin init_state = (s1, r1)"
    by (cases "ORF_phase E A T ?bin init_state")
  then have loop: "for_each (ORF_body E A T ?bin) (ORFs_of_bin T) (init_state\<lparr>LCAs_ORFs := []\<rparr>) = (s1, r1)"
    by (simp add: ORF_phase_flat)
  from ORF_loop_rows_in_order[OF loop] obtain rests where
    rests: "length rests \<le> length (ORFs_of_bin T)"
      "r1 = Returns () \<longrightarrow> length rests = length (ORFs_of_bin T)"
      "outf2 s1 = header2 # map2 (\<lambda>ORF rest. ORF @ TAB # rest) (ORFs_of_bin T) rests"
    by (auto simp: init_state_def)
  have "outf2 s = outf2 s1 \<and> (r = Returns () \<longrightarrow> r1 = Returns ())"
    using b ph by (cases rule: bin_body_cases) auto
  with rests have "\<exists>rests. length rests \<le> length (ORFs_of_bin T) \<and>
            (r = Returns () \<longrightarrow> length rests = length (ORFs_of_bin T)) \<and>
            tl (outf2 s) = map2 (\<lambda>ORF rest. ORF @ TAB # rest) (ORFs_of_bin T) rests"
    by (intro exI[of _ rests]) simp
  with run_contig_names_permuted[of _ T E A] assms show ?thesis
    by (simp add: ORFs_of_bin_def)
qed

theorem per_ORF_rows_in_sorted_contig_order_witness:
  "snd (run (tax_spec 5) (bin_args (3 / 10) False) three_contigs) = Returns () \<and>
   ORFs_of_bin three_contigs = [''c1_1'', ''c10_1'', ''c2_2'', ''c2_1''] \<and>
   mset [''c3'', ''c1'', ''c10'', ''c2''] = mset (contig_names three_contigs) \<and>
   run (tax_spec 5) (bin_args (3 / 10) False) (three_contigs\<lparr>contig_names := [''c3'', ''c1'', ''c10'', ''c2'']\<rparr>) =
     run (tax_spec 5) (bin_args (3 / 10) False) three_contigs \<and>
   (\<exists>rests. length rests = 4 \<and>
      tl (outf2 (fst (run (tax_spec 5) (bin_args (3 / 10) False) three_contigs))) =
        map2 (\<lambda>ORF rest. ORF @ TAB # rest) [''c1_1'', ''c10_1'', ''c2_2'', ''c2_1''] rests)"
proof -
  let ?R = "run (tax_spec 5) (bin_args (3 / 10) False) three_contigs"
  have p: "?R = (fst ?R, snd ?R)" by simp
  have h1: "snd ?R = Returns ()" by code_simp
  have h2: "ORFs_of_bin three_contigs = [''c1_1'', ''c10_1'', ''c2_2'', ''c2_1'']" by code_simp
  have h3: "mset [''c3'', ''c1'', ''c10'', ''c2''] = mset (contig_names three_contigs)"
    by (simp add: three_contigs_def)
  from per_ORF_rows_in_sorted_contig_order[OF p] obtain rests where
    rests: "snd ?R = Returns () \<longrightarrow> length rests = length (ORFs_of_bin three_contigs)"
      "tl (outf2 (fst ?R)) = map2 (\<lambda>ORF rest. ORF @ TAB # rest) (ORFs_of_bin three_contigs) rests"
    and perm: "\<forall>cs. mset cs = mset (contig_names three_contigs) \<longrightarrow>
      run (tax_spec 5) (bin_args (3 / 10) False) (three_contigs\<lparr>contig_names := cs\<rparr>) = (fst ?R, snd ?R)"
    by blast
  have len: "length rests = 4" using rests(1) h1 h2 by simp
  have rows: "tl (outf2 (fst ?R)) =
      map2 (\<lambda>ORF rest. ORF @ TAB # rest) [''c1_1'', ''c10_1'', ''c2_2'', ''c2_1''] rests"
    using rests(2) h2 by simp
  have same: "run (tax_spec 5) (bin_args (3 / 10) False)
      (three_contigs\<lparr>contig_names := [''c3'', ''c1'', ''c10'', ''c2'']\<rparr>) = ?R"
    using perm h3 by simp
  from h1 h2 h3 same len rows show ?thesis by blast
qed


subsection \<open>The values the options \<^verbatim>\<open>-r\<close> and \<^verbatim>\<open>-f\<close> accept\<close>

lemma round_half_even_of_int: "round_half_even (of_int k) = k"
  by (simp add: round_half_even_def Let_def)

lemma pow2_nonpos: "pow2 (- int k) = 1 / 2 ^ k"
  by (simp add: pow2_def)

lemma binary64_of_int:
  assumes "0 < n" and "n < 2 ^ 53"
  shows "binary64 (of_int n) = of_int n"
proof -
  from bitlen_bounds[OF assms(1)] assms(2) have "(2::int) ^ nat (bitlen n - 1) < 2 ^ 53"
    by linarith
  then have "nat (bitlen n - 1) < 53"
    by (rule power_less_imp_less_exp[of "2::int", rotated]) simp
  then have le: "bitlen n \<le> 53" by linarith
  define k where "k = nat (53 - bitlen n)"
  have e: "floor_log2 (rat_of_int n) - 52 = - int k"
    using assms(1) le by (simp add: floor_log2_def k_def)
  have "rat_of_int n * 2 ^ k = of_int (n * 2 ^ k)" by simp
  then have r: "round_half_even (rat_of_int n * 2 ^ k) = n * 2 ^ k"
    by (simp only: round_half_even_of_int)
  show ?thesis
    using assms(1) by (simp add: binary64_def e r Let_def pow2_nonpos)
qed

lemma binary64_small_int: "i \<in> {0..49} \<Longrightarrow> binary64 (of_int i) = of_int i"
proof -
  assume i: "i \<in> {0..49}"
  show ?thesis
  proof (cases "i = 0")
    case True
    then show ?thesis by (simp add: binary64_def)
  next
    case False
    with i have "0 < i" "i < 2 ^ 53" by simp_all
    then show ?thesis by (rule binary64_of_int)
  qed
qed

text \<open>
  Claim C8, as the code has it.  The option \<^verbatim>\<open>-r\<close> accepts every whole number from 0 to 49
  and nothing else: a value is accepted exactly when its float is one of these whole
  numbers; its default is 5.  The option \<^verbatim>\<open>-f\<close> accepts every hundredth from 0.00 to 0.99
  and nothing else: a value is accepted exactly when its float is the float of one of
  these hundredths.  The default of \<^verbatim>\<open>-f\<close> is the float of 0.3, the value the accepted text
  \<^verbatim>\<open>0.3\<close> converts to, which is 5404319552844595 / 2 ^ 54.
\<close>

theorem options_r_and_f:
  "(\<forall>i \<in> {0..49}. accepts_r (of_int i)) \<and>
   (\<forall>v. accepts_r v \<longleftrightarrow> (\<exists>i \<in> {0..49}. binary64 v = of_int i)) \<and>
   default_r = 5 \<and> accepts_r default_r \<and>
   (\<forall>i \<in> {0..99}. accepts_f (of_int i / 100)) \<and>
   (\<forall>v. accepts_f v \<longleftrightarrow> (\<exists>i \<in> {0..99}. binary64 v = binary64 (of_int i / 100))) \<and>
   default_f = binary64 (3 / 10) \<and> accepts_f (3 / 10) \<and>
   default_f = 5404319552844595 / 2 ^ 54"
proof -
  have dflt: "default_f = 5404319552844595 / 2 ^ 54" by code_simp
  have r_iff: "accepts_r v \<longleftrightarrow> (\<exists>i \<in> {0..49}. binary64 v = of_int i)" for v
    by (auto simp: accepts_r_def r_choices_def)
  have f_iff: "accepts_f v \<longleftrightarrow> (\<exists>i \<in> {0..99}. binary64 v = binary64 (of_int i / 100))" for v
    by (auto simp: accepts_f_def f_choices_def)
  have r_all: "\<forall>i \<in> {0..49}. accepts_r (of_int i)"
    using binary64_small_int by (auto simp: r_iff)
  have f_all: "\<forall>i \<in> {0..99}. accepts_f (of_int i / 100)"
    by (auto simp: f_iff)
  have "accepts_r (of_int 5)" by (rule r_all[rule_format]) simp
  then have r5: "accepts_r default_r" by (simp add: default_r_def)
  have "accepts_f (of_int 30 / 100)" by (rule f_all[rule_format]) simp
  then have f3: "accepts_f (3 / 10)" by simp
  from r_iff f_iff r_all f_all r5 f3 dflt show ?thesis
    by (simp add: default_r_def default_f_def)
qed

theorem options_r_and_f_witness:
  "(7::int) \<in> {0..49} \<and> accepts_r (of_int 7) \<and> (99::int) \<in> {0..99} \<and> accepts_f (of_int 99 / 100) \<and>
   accepts_r default_r \<and> accepts_f (3 / 10)"
proof -
  from options_r_and_f have r_all: "\<forall>i \<in> {0..49}. accepts_r (of_int i)"
    and f_all: "\<forall>i \<in> {0..99}. accepts_f (of_int i / 100)"
    and rest: "accepts_r default_r" "accepts_f (3 / 10)"
    by blast+
  have m7: "(7::int) \<in> {0..49}" and m99: "(99::int) \<in> {0..99}" by simp_all
  from r_all[rule_format, OF m7] f_all[rule_format, OF m99] m7 m99 rest show ?thesis
    by blast
qed

text \<open>
  Claim C8 as stated fails: 2.5 lies between 0 and 49 and \<^verbatim>\<open>-r\<close> refuses it, 0.255 lies
  between 0 and 0.99 and \<^verbatim>\<open>-f\<close> refuses it, and the default of \<^verbatim>\<open>-f\<close> is the float nearest
  to 3/10, which is less than 3/10.
\<close>

theorem options_refuse_values_in_between:
  "(0::rat) \<le> 5 / 2 \<and> (5::rat) / 2 \<le> 49 \<and> \<not> accepts_r (5 / 2) \<and>
   (0::rat) \<le> 51 / 200 \<and> (51::rat) / 200 \<le> 99 / 100 \<and> \<not> accepts_f (51 / 200) \<and>
   default_f = 5404319552844595 / 18014398509481984 \<and> default_f < 3 / 10"
  by code_simp


subsection \<open>The scenarios of the aggregation\<close>





subsection \<open>How many lineages the specified aggregation returns\<close>

lemma find_lineage_spec_Returns:
  assumes "find_lineage_spec x t2p = Returns l"
  shows "\<exists>p. t2p x = Some p \<and>
           (p = x \<and> l = [x] \<or>
            p \<noteq> x \<and> (\<exists>l'. find_lineage_spec p t2p = Returns l' \<and> l = x # l'))"
proof -
  from assms obtain p where p: "t2p x = Some p"
    by (subst (asm) find_lineage_spec.simps) (auto split: option.splits)
  show ?thesis
  proof (cases "p = x")
    case True
    with assms p show ?thesis
      by (subst (asm) find_lineage_spec.simps) simp
  next
    case False
    with assms p obtain res where res: "find_lineage_spec p t2p = Some res"
      "(case res of Inl e \<Rightarrow> Raises e | Inr lineage \<Rightarrow> Returns (x # lineage)) = Returns l"
      by (subst (asm) find_lineage_spec.simps) (auto simp: Option.bind_eq_Some_conv)
    then show ?thesis using p False by (cases res) auto
  qed
qed

lemma find_lineage_spec_suffix:
  assumes "find_lineage_spec x t2p = Returns l" and "a \<in> set l"
  shows "find_lineage_spec a t2p = Returns (dropWhile (\<lambda>y. y \<noteq> a) l)"
  using assms
proof (induction l arbitrary: x)
  case Nil
  then show ?case by simp
next
  case (Cons y l')
  from find_lineage_spec_Returns[OF Cons.prems(1)] obtain p where p: "t2p x = Some p"
    "p = x \<and> y # l' = [x] \<or>
     p \<noteq> x \<and> (\<exists>l''. find_lineage_spec p t2p = Returns l'' \<and> y # l' = x # l'')"
    by blast
  then have y: "y = x" by auto
  show ?case
  proof (cases "a = x")
    case True
    with Cons.prems(1) y show ?thesis by simp
  next
    case False
    with Cons.prems(2) y have a: "a \<in> set l'" by simp
    with p(2) have "find_lineage_spec p t2p = Returns l'" by auto
    from Cons.IH[OF this a] False y show ?thesis by simp
  qed
qed

lemma expand_Returns:
  assumes "expand es t2p = Returns L"
  shows "map snd L = map snd es \<and>
         (\<forall>(l, w) \<in> set L. \<exists>t. find_lineage_spec t t2p = Returns l)"
  using assms
proof (induction es arbitrary: L)
  case Nil
  then show ?case by simp
next
  case (Cons e es)
  obtain t b where e: "e = (t, b)" by (cases e)
  from Cons.prems e obtain l L' where l: "find_lineage_spec t t2p = Returns l"
    and L': "expand es t2p = Returns L'" and L: "L = (l, b) # L'"
    by (auto split: option.splits sum.splits)
  from Cons.IH[OF L'] l L e show ?case by auto
qed

lemma one_comes_first:
  "a \<in> set l \<Longrightarrow> b \<in> set l \<Longrightarrow>
   b \<in> set (dropWhile (\<lambda>y. y \<noteq> a) l) \<or> a \<in> set (dropWhile (\<lambda>y. y \<noteq> b) l)"
  by (induction l) auto

lemma find_Some_mem: "find P xs = Some x \<Longrightarrow> x \<in> set xs \<and> P x"
  by (induction xs) (auto split: if_splits)

lemma lineage_in_is_lineage:
  assumes "\<forall>(l, w) \<in> set L. \<exists>t. find_lineage_spec t t2p = Returns l"
    and "(l, w) \<in> set L" and "a \<in> set l"
  shows "lineage_in L a = dropWhile (\<lambda>y. y \<noteq> a) l \<and> a \<in> set (lineage_in L a)"
proof -
  from assms(2,3) obtain l0 w0 where f: "find (\<lambda>(l, w). a \<in> set l) L = Some (l0, w0)"
    by (cases "find (\<lambda>(l, w). a \<in> set l) L") (auto simp: find_None_iff)
  then have l0: "(l0, w0) \<in> set L" "a \<in> set l0"
    by (auto dest: find_Some_mem)
  from assms(1) l0(1) obtain t0 where "find_lineage_spec t0 t2p = Returns l0" by auto
  from find_lineage_spec_suffix[OF this l0(2)]
  have c0: "find_lineage_spec a t2p = Returns (dropWhile (\<lambda>y. y \<noteq> a) l0)" .
  from assms(1,2) obtain t where "find_lineage_spec t t2p = Returns l" by auto
  from find_lineage_spec_suffix[OF this assms(3)]
  have c: "find_lineage_spec a t2p = Returns (dropWhile (\<lambda>y. y \<noteq> a) l)" .
  from c c0 have same: "dropWhile (\<lambda>y. y \<noteq> a) l0 = dropWhile (\<lambda>y. y \<noteq> a) l" by simp
  have "a \<in> set (dropWhile (\<lambda>y. y \<noteq> a) l)"
    using assms(3) by (induction l) auto
  with f same show ?thesis by (simp add: lineage_in_def)
qed

lemma share_at_most_once:
  assumes "distinct sel" and "0 \<le> (w::rat)"
    and "\<forall>a \<in> set sel. \<forall>b \<in> set sel. a \<in> set l \<and> b \<in> set l \<longrightarrow> a = b"
  shows "sum_list (map (\<lambda>a. if a \<in> set l then w else 0) sel) \<le> w"
  using assms
proof (induction sel)
  case Nil
  then show ?case by simp
next
  case (Cons a sel)
  show ?case
  proof (cases "a \<in> set l")
    case True
    have "\<forall>b \<in> set sel. b \<notin> set l"
      using Cons.prems(1,3) True by auto
    then have "sum_list (map (\<lambda>a. if a \<in> set l then w else 0) sel) = 0"
      by (induction sel) auto
    with True show ?thesis by simp
  next
    case False
    with Cons show ?thesis by simp
  qed
qed

lemma weights_of_selected:
  assumes "distinct sel"
    and "\<forall>(l, w) \<in> set L. 0 \<le> w \<and>
           (\<forall>a \<in> set sel. \<forall>b \<in> set sel. a \<in> set l \<and> b \<in> set l \<longrightarrow> a = b)"
  shows "sum_list (map (\<lambda>a. sum_list (map snd (filter (\<lambda>(l, w). a \<in> set l) L))) sel)
           \<le> sum_list (map snd (L :: (taxid list \<times> rat) list))"
  using assms(2)
proof (induction L)
  case Nil
  then show ?case by simp
next
  case (Cons e L)
  obtain l w where e: "e = (l, w)" by (cases e)
  have split: "sum_list (map snd (filter (\<lambda>(l, w). a \<in> set l) (e # L))) =
      (if a \<in> set l then w else 0) + sum_list (map snd (filter (\<lambda>(l, w). a \<in> set l) L))" for a
    by (simp add: e)
  have "sum_list (map (\<lambda>a. sum_list (map snd (filter (\<lambda>(l, w). a \<in> set l) (e # L)))) sel) =
      sum_list (map (\<lambda>a. if a \<in> set l then w else 0) sel) +
      sum_list (map (\<lambda>a. sum_list (map snd (filter (\<lambda>(l, w). a \<in> set l) L))) sel)"
    unfolding split by (simp add: sum_list_addf)
  moreover have "sum_list (map (\<lambda>a. if a \<in> set l then w else 0) sel) \<le> w"
    using Cons.prems e by (intro share_at_most_once[OF assms(1)]) auto
  moreover have "sum_list (map (\<lambda>a. sum_list (map snd (filter (\<lambda>(l, w). a \<in> set l) L))) sel)
      \<le> sum_list (map snd L)"
    using Cons.prems by (intro Cons.IH) auto
  ultimately show ?case by (simp add: e)
qed


text \<open>
  What does hold of the aggregation of section 4.6 when the bit-scores are not negative
  and the support fraction is positive: it returns at least one lineage and at most
  \<open>\<lfloor>1 / f\<rfloor>\<close>, so exactly one when the fraction is greater than 0.5.
\<close>

lemma selected_lineages_bounded:
  assumes nonneg: "\<forall>(taxid, b) \<in> set entries. 0 \<le> b"
    and pos: "0 < fr"
    and res: "find_weighted_LCA_spec entries t2p fr = Returns (Lineages ls scs n)"
  shows "1 \<le> length ls \<and> length scs = length ls \<and> of_nat (length ls) * fr \<le> 1 \<and>
         length ls \<le> nat \<lfloor>1 / fr\<rfloor> \<and> (1 / 2 < fr \<longrightarrow> length ls = 1)"
proof -
  define es where "es = resolved_entries entries"
  from res obtain L where L: "expand es t2p = Returns L"
    by (auto simp: find_weighted_LCA_spec_def Let_def es_def split: if_splits option.splits sum.splits)
  define total where "total = sum_list (map snd es)"
  define sel where "sel = selected L total fr"
  from res L have total0: "total \<noteq> 0" and sel0: "sel \<noteq> []"
    and ls: "ls = map (lineage_in L) sel"
    and scs: "scs = map (\<lambda>node. map (support L total) (lineage_in L node)) sel"
    by (auto simp: find_weighted_LCA_spec_def Let_def es_def total_def sel_def split: if_splits)
  from expand_Returns[OF L] have weights: "map snd L = map snd es"
    and lineages: "\<forall>(l, w) \<in> set L. \<exists>t. find_lineage_spec t t2p = Returns l"
    by simp_all
  have es_nonneg: "\<forall>(taxid, b) \<in> set es. 0 \<le> b"
    using nonneg by (auto simp: es_def resolved_entries_def)
  then have "\<forall>b \<in> set (map snd es). 0 \<le> b" by auto
  then have L_nonneg: "\<forall>(l, w) \<in> set L. 0 \<le> w"
    unfolding weights[symmetric] by auto
  have "0 \<le> total"
    unfolding total_def using es_nonneg by (intro sum_list_nonneg) auto
  with total0 have total_pos: "0 < total" by simp
  have total_L: "sum_list (map snd L) = total"
    by (simp add: total_def weights)
  have distinct: "distinct sel"
    by (simp add: sel_def selected_def qualifying_def Let_def)
  have in_q: "a \<in> set (qualifying L total fr)" if "a \<in> set sel" for a
    using that by (simp add: sel_def selected_def Let_def)
  have on_lineage: "\<exists>l w. (l, w) \<in> set L \<and> a \<in> set l" if "a \<in> set sel" for a
    using in_q[OF that] by (auto simp: qualifying_def)
  have supported: "fr \<le> support L total a" if "a \<in> set sel" for a
  proof -
    from on_lineage[OF that] obtain l w where "(l, w) \<in> set L" "a \<in> set l" by blast
    from lineage_in_is_lineage[OF lineages this] have "a \<in> set (lineage_in L a)" by (rule conjunct2)
    with in_q[OF that] show ?thesis by (simp add: qualifying_def)
  qed
  have apart: "a = b" if "a \<in> set sel" "b \<in> set sel" "(l, w) \<in> set L" "a \<in> set l" "b \<in> set l"
    for a b l w
  proof (rule ccontr)
    assume ne: "a \<noteq> b"
    from lineage_in_is_lineage[OF lineages that(3,4)]
    have ca: "lineage_in L a = dropWhile (\<lambda>y. y \<noteq> a) l" by (rule conjunct1)
    from lineage_in_is_lineage[OF lineages that(3,5)]
    have cb: "lineage_in L b = dropWhile (\<lambda>y. y \<noteq> b) l" by (rule conjunct1)
    from one_comes_first[OF that(4,5)]
    show False
    proof
      assume "b \<in> set (dropWhile (\<lambda>y. y \<noteq> a) l)"
      with ca have "b \<in> set (lineage_in L a)" by simp
      with in_q[OF that(1)] ne have "b \<notin> set sel"
        by (auto simp: sel_def selected_def Let_def)
      with that(2) show False by simp
    next
      assume "a \<in> set (dropWhile (\<lambda>y. y \<noteq> b) l)"
      with cb have "a \<in> set (lineage_in L b)" by simp
      with in_q[OF that(2)] ne have "a \<notin> set sel"
        by (auto simp: sel_def selected_def Let_def)
      with that(1) show False by simp
    qed
  qed
  have "sum_list (map (\<lambda>a. sum_list (map snd (filter (\<lambda>(l, w). a \<in> set l) L))) sel)
          \<le> sum_list (map snd L)"
    using L_nonneg apart by (intro weights_of_selected[OF distinct]) blast
  then have sum_le: "sum_list (map (\<lambda>a. support L total a * total) sel) \<le> total"
    using total_pos by (simp add: support_def total_L)
  have "sum_list (map (\<lambda>a. fr * total) sel) \<le> sum_list (map (\<lambda>a. support L total a * total) sel)"
    using supported total_pos by (intro sum_list_mono) (simp add: mult_right_mono)
  with sum_le have "of_nat (length sel) * (fr * total) \<le> total"
    by (simp add: sum_list_triv)
  then have "(of_nat (length sel) * fr) * total \<le> 1 * total" by (simp add: mult.assoc)
  with total_pos have bound: "of_nat (length sel) * fr \<le> 1"
    by (simp only: mult_le_cancel_right_pos)
  then have "of_nat (length sel) \<le> 1 / fr"
    using pos by (simp add: pos_le_divide_eq)
  then have "int (length sel) \<le> \<lfloor>1 / fr\<rfloor>"
    by (simp add: le_floor_iff)
  then have floor: "length sel \<le> nat \<lfloor>1 / fr\<rfloor>" by linarith
  have one: "length sel = 1" if "1 / 2 < fr"
  proof -
    have "length sel < 2"
    proof (rule ccontr)
      assume "\<not> length sel < 2"
      then have "(2::rat) \<le> of_nat (length sel)" by simp
      then have "2 * fr \<le> of_nat (length sel) * fr"
        using pos by (simp add: mult_right_mono)
      with bound that show False by simp
    qed
    with sel0 show ?thesis by (cases sel) auto
  qed
  from sel0 have "1 \<le> length sel" by (cases sel) auto
  with bound floor one show ?thesis by (simp add: ls scs)
qed

end
